theory Spec2Isabelle
  imports Main "HOL-Library.AList"
begin

section \<open>Data model (worker/types.ts)\<close>

text \<open>
  Numbers of the game (money, dice, bids, coordinates, timestamps) are integers and are
  modelled as \<^typ>\<open>int\<close>; \<open>Math.floor\<close> is the identity on them.  Player ids, cell ids
  and conflict ids are strings.  A JavaScript object used as a dictionary
  (\<open>Record<string, T>\<close>) is an association list in the order in which
  \<open>Object.entries\<close> enumerates it (assignment is \<open>recordPut\<close> below, \<open>delete\<close> is
  \<^const>\<open>AList.delete\<close>); a \<open>Map\<close> is an association list in insertion order
  (\<^const>\<open>AList.update\<close>).  A \<open>Record<string, true>\<close> is read only through the number of
  its keys, so it is the list of its keys.
\<close>

datatype gamePhase =
  Lobby | Round_start | Market_phase | Buy_phase | Path_phase | Auction | Round_end | Ended

datatype role = Producer | Seller

record axial =
  q :: int
  r :: int

record cellOwner =
  ownerId :: string
  ownerRole :: role
  roundsOwned :: "int option"

record cell = axial +
  cell_id :: string
  diceValue :: int
  producer :: int
  seller :: int
  blocked :: bool
  owners :: "cellOwner list option"

record player =
  playerId :: string
  displayName :: string
  color :: string
  money :: int
  dice :: "int list"

record gameConfig =
  roundCount :: int
  phase :: gamePhase
  roundIndex :: int
  marketDice :: "int list option"
  marketMinPrice :: "int option"
  phaseEndsAt :: "int option"

record buyAction =
  cellId :: string
  buyRole :: role

record marketBid =
  dieIndex :: int
  amount :: int

datatype conflict =
  CellConflict (conflictId: string) (conflictCell: string) (playerIds: "string list")
| MarketConflict (conflictId: string) (conflictDie: int) (playerIds: "string list")

record pendingActions =
  buy :: "(string \<times> buyAction list) list"
  buyDone :: "string list"
  pathReady :: "string list"
  market :: "(string \<times> marketBid) list"
  marketSkip :: "string list"
  auctionBids :: "(string \<times> (string \<times> int) list) list"
  conflicts :: "conflict list"

record submittedPath =
  producerId :: string
  sellerId :: string
  path :: "axial list"
  revenue :: int

text \<open>
  The durable storage of one room, one field per storage key.  A key that is absent reads
  as its default at every \<open>get\<close> of the source (\<open>?? []\<close>, \<open>?? {}\<close>,
  \<open>?? emptyPendingActions()\<close>), so players, grid, pending actions and submitted paths
  hold the default when absent; \<open>config\<close> and \<open>winnerId\<close> are optional.
  \<open>st_attach\<close> is the player id serialized on each open connection (connections are
  numbered).  There is no field for an armed wake-up time: no call of the source ever
  arms one (see \<open>setAlarm\<close> below).
\<close>

record room =
  st_config :: "gameConfig option"
  st_players :: "player list"
  st_grid :: "cell list"
  st_pending :: pendingActions
  st_paths :: "(string \<times> submittedPath) list"
  st_winner :: "string option"
  st_pathUsed :: "(string \<times> string list) list option"
  st_attach :: "nat \<Rightarrow> string option"

text \<open>
  What the runtime supplies to one event: the clock, the fresh id of a join, and the
  outcomes of the random draws.  Every \<open>Math.random()\<close> call site has its own supply of
  natural numbers, reduced modulo the size of the range drawn from; the colour returned
  by each call of \<open>distinctPlayerColor\<close> (which picks among candidates of an external
  colour library) is supplied as such.
\<close>

record gridDraws =
  blockShuffle :: "nat list"
  diceFaces :: "nat list"
  faceShuffle :: "nat list"
  producerDraws :: "nat list"
  sellerDraws :: "nat list"

record env =
  now :: int
  uuid :: string
  colorSupply :: "string list"
  marketDraws :: "nat list"
  handDraws :: "nat list list"
  boardDraws :: gridDraws

datatype message =
  Joined string
| ErrorMsg string
| Path_revenue int

text \<open>
  What a call does to the outside, in order: a message to one connection, a broadcast of
  the state to every connection, and, as the last entry, \<open>Uncaught\<close> when the call ended
  by an exception that it did not catch itself.
\<close>

datatype outbound =
  SendTo nat message
| StateBroadcast
| Uncaught

datatype inbound =
  Tick
| Join "string option"
| Rejoin string "string option"
| Start_game
| Buy_cell string role
| Buy_cell_cancel string
| Buy_done
| Auction_bid string int
| Path string string "axial list"
| Path_done
| Market_bid int int
| Market_skip
| Market_recycle int
| Unknown

section \<open>JavaScript helpers\<close>

text \<open>\<open>xs.find(P)\<close> then mutate the element found: the first match is updated in place.\<close>

fun updateFirst :: "('a \<Rightarrow> bool) \<Rightarrow> ('a \<Rightarrow> 'a) \<Rightarrow> 'a list \<Rightarrow> 'a list" where
  "updateFirst P f [] = []"
| "updateFirst P f (x # xs) = (if P x then f x # xs else x # updateFirst P f xs)"

text \<open>\<open>rec[k] = true\<close> on a \<open>Record<string, true>\<close>.\<close>

definition keyAdd :: "string \<Rightarrow> string list \<Rightarrow> string list" where
  "keyAdd k ks = (if k \<in> set ks then ks else ks @ [k])"

text \<open>
  \<open>rec[k] = v\<close> on a \<open>Record<string, T>\<close>.  An existing key keeps its position.  A new
  key that is an array index (a decimal numeral without a leading zero, below
  \<open>2^32 - 1\<close>) is enumerated before every other kind of key, among the array indices in
  ascending numeric order; any other new key comes last.
\<close>

definition isDigit :: "char \<Rightarrow> bool" where
  "isDigit c = (48 \<le> (of_char c :: int) \<and> (of_char c :: int) \<le> 57)"

definition decimal :: "string \<Rightarrow> int" where
  "decimal ds = foldl (\<lambda>n c. 10 * n + ((of_char c :: int) - 48)) 0 ds"

definition arrayIndex :: "string \<Rightarrow> int option" where
  "arrayIndex k =
     (if k \<noteq> [] \<and> list_all isDigit k \<and> (k = ''0'' \<or> hd k \<noteq> CHR ''0'') \<and> decimal k < 4294967295
      then Some (decimal k) else None)"

definition indexBefore :: "int \<Rightarrow> string \<times> 'v \<Rightarrow> bool" where
  "indexBefore n ent = (case arrayIndex (fst ent) of None \<Rightarrow> False | Some j \<Rightarrow> j < n)"

definition recordPut :: "string \<Rightarrow> 'v \<Rightarrow> (string \<times> 'v) list \<Rightarrow> (string \<times> 'v) list" where
  "recordPut k v m =
     (if k \<in> set (map fst m) then AList.update k v m
      else (case arrayIndex k of
              None \<Rightarrow> m @ [(k, v)]
            | Some n \<Rightarrow> takeWhile (indexBefore n) m @ (k, v) # dropWhile (indexBefore n) m))"

text \<open>\<open>xs.splice(i, 1)\<close> for an index in range.\<close>

definition spliceOne :: "nat \<Rightarrow> 'a list \<Rightarrow> 'a list" where
  "spliceOne i xs = take i xs @ drop (Suc i) xs"

text \<open>\<open>xs.slice(0, n)\<close>: a negative end counts from the end of the array.\<close>

definition sliceTo :: "int \<Rightarrow> 'a list \<Rightarrow> 'a list" where
  "sliceTo n xs = (if n < 0 then take (nat (int (length xs) + n)) xs else take (nat n) xs)"

text \<open>The k-th draw of a supply; an exhausted supply yields 0.\<close>

definition drawAt :: "nat list \<Rightarrow> nat \<Rightarrow> nat" where
  "drawAt ds k = (if k < length ds then ds ! k else 0)"

text \<open>Decimal rendering of an integer inside a template string.\<close>

definition digitChar :: "nat \<Rightarrow> char" where
  "digitChar d = char_of (48 + d)"

function showNat :: "nat \<Rightarrow> string" where
  "showNat n = (if n < 10 then [digitChar n] else showNat (n div 10) @ [digitChar (n mod 10)])"
  by pat_completeness auto
termination
  by (relation "measure (\<lambda>n. n)") auto

definition showInt :: "int \<Rightarrow> string" where
  "showInt i = (if i < 0 then CHR ''-'' # showNat (nat (- i)) else showNat (nat i))"

section \<open>Geometry and board generation (worker/hex.ts, worker/grid.ts)\<close>

definition axialEquals :: "axial \<Rightarrow> axial \<Rightarrow> bool" where
  "axialEquals a b = (q a = q b \<and> r a = r b)"

definition axialKey :: "axial \<Rightarrow> string" where
  "axialKey a = showInt (q a) @ '','' @ showInt (r a)"

definition axialNeighbors :: "axial \<Rightarrow> axial list" where
  "axialNeighbors a =
     [\<lparr>q = q a + 1, r = r a\<rparr>, \<lparr>q = q a + 1, r = r a - 1\<rparr>, \<lparr>q = q a, r = r a - 1\<rparr>,
      \<lparr>q = q a - 1, r = r a\<rparr>, \<lparr>q = q a - 1, r = r a + 1\<rparr>, \<lparr>q = q a, r = r a + 1\<rparr>]"

definition hexRegionCount :: "nat \<Rightarrow> int" where
  "hexRegionCount rad = 1 + 3 * int rad * (int rad + 1)"

definition hexRegion :: "nat \<Rightarrow> axial list" where
  "hexRegion radius =
     concat (map (\<lambda>qq. map (\<lambda>rr. \<lparr>q = qq, r = rr\<rparr>)
                    [max (- int radius) (- qq - int radius) .. min (int radius) (- qq + int radius)])
                 [- int radius .. int radius])"

definition randomInt :: "int \<Rightarrow> int \<Rightarrow> nat \<Rightarrow> int" where
  "randomInt lo hi d = int (d mod nat (hi - lo + 1)) + lo"

text \<open>Fisher-Yates: for \<open>i\<close> from the last index down to 1, swap \<open>i\<close> with a drawn \<open>j \<le> i\<close>.\<close>

definition shuffleStep :: "nat list \<Rightarrow> nat \<Rightarrow> nat \<Rightarrow> 'a list \<Rightarrow> 'a list" where
  "shuffleStep ds n i out =
     (let j = drawAt ds (n - 1 - i) mod (i + 1) in out[i := out ! j, j := out ! i])"

definition shuffle :: "nat list \<Rightarrow> 'a list \<Rightarrow> 'a list" where
  "shuffle ds arr = fold (shuffleStep ds (length arr)) (rev [1..<length arr]) arr"

function findRadius :: "int \<Rightarrow> nat \<Rightarrow> nat" where
  "findRadius totalNeeded radius =
     (if hexRegionCount radius < totalNeeded then findRadius totalNeeded (Suc radius) else radius)"
  by pat_completeness auto
termination
proof (relation "measure (\<lambda>(totalNeeded, radius). nat (totalNeeded - hexRegionCount radius))")
  show "wf (measure (\<lambda>(totalNeeded, radius). nat (totalNeeded - hexRegionCount radius)))"
    by simp
next
  fix totalNeeded :: int and radius :: nat
  assume "hexRegionCount radius < totalNeeded"
  moreover have "hexRegionCount radius < hexRegionCount (Suc radius)"
    by (simp add: hexRegionCount_def algebra_simps)
  ultimately show "((totalNeeded, Suc radius), (totalNeeded, radius))
      \<in> measure (\<lambda>(totalNeeded, radius). nat (totalNeeded - hexRegionCount radius))"
    by simp
qed

definition assignFaces :: "nat list \<Rightarrow> int list \<Rightarrow> int list" where
  "assignFaces shuffledPlayable diceValues =
     fold (\<lambda>face dv. dv[shuffledPlayable ! (face - 1) := int face]) [1..<7] diceValues"

definition generateGrid :: "gridDraws \<Rightarrow> int \<Rightarrow> int \<Rightarrow> cell list" where
  "generateGrid g minCells blockedCount =
     (let totalNeeded = minCells + blockedCount;
          radius = findRadius totalNeeded 1;
          coords = hexRegion radius;
          totalCells = length coords;
          effectiveBlockedCount = min blockedCount (max 0 (int totalCells - 1));
          shuffledIndices = shuffle (blockShuffle g) [0..<totalCells];
          blockedSet = sliceTo effectiveBlockedCount shuffledIndices;
          playableIndices = filter (\<lambda>i. i \<notin> set blockedSet) [0..<totalCells];
          diceValues0 = map (\<lambda>i. randomInt 1 6 (drawAt (diceFaces g) i)) [0..<totalCells];
          diceValues = (if length playableIndices \<ge> 6
                        then assignFaces (shuffle (faceShuffle g) playableIndices) diceValues0
                        else diceValues0)
      in map (\<lambda>i. \<lparr>q = q (coords ! i), r = r (coords ! i),
                    cell_id = ''cell-'' @ showInt (q (coords ! i)) @ ''-'' @ showInt (r (coords ! i)),
                    diceValue = diceValues ! i,
                    producer = randomInt 1 9 (drawAt (producerDraws g) i),
                    seller = randomInt 1 9 (drawAt (sellerDraws g) i),
                    blocked = (i \<in> set blockedSet),
                    owners = Some []\<rparr>)
             [0..<totalCells])"

section \<open>Room logic: constants and small helpers (GameRoom)\<close>

definition STARTING_MONEY :: int where "STARTING_MONEY = 10"
definition MARKET_MIN_PRICE :: int where "MARKET_MIN_PRICE = 1"
definition MARKET_DURATION_MS :: int where "MARKET_DURATION_MS = 30000"
definition AUCTION_DURATION_MS :: int where "AUCTION_DURATION_MS = 30000"
definition BUY_DURATION_MS :: int where "BUY_DURATION_MS = 90000"
definition PATH_DURATION_MS :: int where "PATH_DURATION_MS = 90000"
definition ROOM_CLEANUP_DELAY_MS :: int where "ROOM_CLEANUP_DELAY_MS = 5 * 60000"

definition randomDice :: "nat \<Rightarrow> int" where
  "randomDice d = int (d mod 6) + 1"

definition randomDiceArray :: "nat \<Rightarrow> nat list \<Rightarrow> int list" where
  "randomDiceArray n ds = map (\<lambda>k. randomDice (drawAt ds k)) [0..<n]"

definition emptyPendingActions :: pendingActions where
  "emptyPendingActions =
     \<lparr>buy = [], buyDone = [], pathReady = [], market = [], marketSkip = [],
      auctionBids = [], conflicts = []\<rparr>"

text \<open>The colour a call of \<open>distinctPlayerColor\<close> returns: the next one supplied
  (its own fallback when nothing is supplied).\<close>

definition distinctPlayerColor :: "string list \<Rightarrow> string" where
  "distinctPlayerColor supply = (case supply of [] \<Rightarrow> ''#22c55e'' | c # _ \<Rightarrow> c)"

fun ensurePlayerColors :: "string list \<Rightarrow> player list \<Rightarrow> player list" where
  "ensurePlayerColors supply [] = []"
| "ensurePlayerColors supply (p # ps) =
     (if color p = [] then p\<lparr>color := distinctPlayerColor supply\<rparr> # ensurePlayerColors (tl supply) ps
      else p # ensurePlayerColors supply ps)"

text \<open>\<open>cell.owners\<close> is optional; every read of the source treats a missing list as empty.\<close>

definition owners_of :: "cell \<Rightarrow> cellOwner list" where
  "owners_of c = (case owners c of None \<Rightarrow> [] | Some os \<Rightarrow> os)"

definition ownsAs :: "string \<Rightarrow> role \<Rightarrow> cell \<Rightarrow> bool" where
  "ownsAs pid rl c = list_ex (\<lambda>ow. ownerId ow = pid \<and> ownerRole ow = rl) (owners_of c)"

definition findCell :: "string \<Rightarrow> cell list \<Rightarrow> cell option" where
  "findCell cid grid = find (\<lambda>c. cell_id c = cid) grid"

definition findPlayer :: "string \<Rightarrow> player list \<Rightarrow> player option" where
  "findPlayer pid players = find (\<lambda>p. playerId p = pid) players"

definition pushOwner :: "string \<Rightarrow> role \<Rightarrow> cellOwner list \<Rightarrow> cellOwner list" where
  "pushOwner pid rl os = os @ [\<lparr>ownerId = pid, ownerRole = rl, roundsOwned = Some 0\<rparr>]"

definition broadcastState :: "env \<Rightarrow> room \<Rightarrow> room \<times> outbound list" where
  "broadcastState e s =
     ((if list_ex (\<lambda>p. color p = []) (st_players s)
       then s\<lparr>st_players := ensurePlayerColors (colorSupply e) (st_players s)\<rparr>
       else s),
      [StateBroadcast])"

definition thenBroadcast :: "env \<Rightarrow> room \<times> outbound list \<Rightarrow> room \<times> outbound list" where
  "thenBroadcast e res =
     (case res of (s, out) \<Rightarrow> (case broadcastState e s of (s', b) \<Rightarrow> (s', out @ b)))"

text \<open>
  \<open>await this.ctx.setAlarm(t)\<close>.  The state object of a durable object has no method
  \<open>setAlarm\<close> (alarms are armed through \<open>ctx.storage\<close>), so the call throws a
  \<open>TypeError\<close>: nothing is armed, and what the caller would have done next is not done.
  What was stored before the call stays stored.
\<close>

definition setAlarm :: "int \<Rightarrow> room \<Rightarrow> room \<times> outbound list" where
  "setAlarm t s = (s, [Uncaught])"

text \<open>Sequencing of two awaited calls: the second runs only if the first returned.\<close>

definition andThen ::
  "room \<times> outbound list \<Rightarrow> (room \<Rightarrow> room \<times> outbound list) \<Rightarrow> room \<times> outbound list" where
  "andThen res k =
     (case res of (s, out) \<Rightarrow>
        if Uncaught \<in> set out then res else (case k s of (s', out') \<Rightarrow> (s', out @ out')))"

section \<open>Ownership aging, auto-ready players, path revenue\<close>

definition ageCell :: "cell \<Rightarrow> cell" where
  "ageCell c =
     (if owners_of c = [] then c
      else c\<lparr>producer := max 1 (producer c - 1), seller := max 1 (seller c - 1)\<rparr>)"

definition applyOwnershipAging :: "cell list \<Rightarrow> cell list" where
  "applyOwnershipAging grid = map ageCell grid"

definition computeAutoPathReady :: "player list \<Rightarrow> cell list \<Rightarrow> string list" where
  "computeAutoPathReady players grid =
     fold (\<lambda>p ready.
             (let hasProducer = list_ex (ownsAs (playerId p) Producer) grid;
                  hasSeller = list_ex (ownsAs (playerId p) Seller) grid
              in if \<not> hasProducer \<or> \<not> hasSeller then keyAdd (playerId p) ready else ready))
          players []"

definition isEnemyHex :: "cell list \<Rightarrow> string \<Rightarrow> axial \<Rightarrow> bool" where
  "isEnemyHex grid pid hex =
     (case find (\<lambda>c. q c = q hex \<and> r c = r hex) grid of
        None \<Rightarrow> False
      | Some c \<Rightarrow> list_ex (\<lambda>ow. ownerId ow \<noteq> pid) (owners_of c))"

definition computePathRevenue :: "cell list \<Rightarrow> string \<Rightarrow> cell \<Rightarrow> cell \<Rightarrow> axial list \<Rightarrow> int" where
  "computePathRevenue grid pid producerCell sellerCell pth =
     (let pathLength = int (length pth) - 1;
          enemyTerritory =
            fold (\<lambda>i n. if isEnemyHex grid pid (pth ! i) then n + 1 else n)
                 [1..<length pth - 1] (0::int);
          effectiveSeller = max 0 (min (seller sellerCell - pathLength - 2 * enemyTerritory) 1)
      in producer producerCell * effectiveSeller)"

section \<open>alarm: resolution of the current phase\<close>

subsection \<open>round\_start\<close>

definition payPaths :: "(string \<times> submittedPath) list \<Rightarrow> player list \<Rightarrow> player list" where
  "payPaths paths players =
     fold (\<lambda>ent ps. updateFirst (\<lambda>p. playerId p = fst ent)
                       (\<lambda>p. p\<lparr>money := money p + max 0 (revenue (snd ent))\<rparr>) ps)
          paths players"

definition alarmRoundStart :: "env \<Rightarrow> gameConfig \<Rightarrow> room \<Rightarrow> room \<times> outbound list" where
  "alarmRoundStart e config s =
     (let grid = applyOwnershipAging (st_grid s);
          players = payPaths (st_paths s) (map (\<lambda>p. p\<lparr>money := money p + 1\<rparr>) (st_players s));
          newConfig = config\<lparr>phase := Market_phase,
                        marketDice := Some (randomDiceArray (length players - 1) (marketDraws e)),
                        phaseEndsAt := Some (now e + MARKET_DURATION_MS)\<rparr>
      in andThen (setAlarm (now e + MARKET_DURATION_MS)
                    (s\<lparr>st_grid := grid, st_players := players, st_config := Some newConfig\<rparr>))
                 (broadcastState e))"

subsection \<open>market\_phase\<close>

text \<open>\<open>bidsByDieIndex\<close> is a \<open>Map\<close>: its entries are kept in insertion order.\<close>

definition addBid ::
  "int \<Rightarrow> string \<times> marketBid \<Rightarrow> (int \<times> (string \<times> int) list) list \<Rightarrow> (int \<times> (string \<times> int) list) list"
where
  "addBid minPrice ent m =
     (if amount (snd ent) < minPrice then m
      else (let lst = (case map_of m (dieIndex (snd ent)) of None \<Rightarrow> [] | Some l \<Rightarrow> l);
                lst' = (if list_ex (\<lambda>b. fst b = fst ent) lst then lst
                        else lst @ [(fst ent, amount (snd ent))])
            in AList.update (dieIndex (snd ent)) lst' m))"

definition groupBids :: "int \<Rightarrow> (string \<times> marketBid) list \<Rightarrow> (int \<times> (string \<times> int) list) list" where
  "groupBids minPrice entries = fold (addBid minPrice) entries []"

definition bestBidOf :: "(string \<times> int) list \<Rightarrow> int" where
  "bestBidOf bids = fold (\<lambda>b best. if snd b > best then snd b else best) bids (- 1)"

definition marketStep ::
  "int \<Rightarrow> int \<times> (string \<times> int) list \<Rightarrow> player list \<times> int list \<times> conflict list
     \<Rightarrow> player list \<times> int list \<times> conflict list"
where
  "marketStep t grp st =
     (case st of (players, md, confl) \<Rightarrow>
       (let dieIx = fst grp; bids = snd grp in
        if dieIx < 0 \<or> dieIx \<ge> int (length md) then st
        else if bids = [] then st
        else (let bestBid = bestBidOf bids;
                  winners = map fst (filter (\<lambda>b. snd b = bestBid) bids)
              in if length winners = 1 then
                   (case findPlayer (hd winners) players of
                      None \<Rightarrow> st
                    | Some pl \<Rightarrow>
                        if money pl \<ge> bestBid then
                          (updateFirst (\<lambda>p. playerId p = hd winners)
                             (\<lambda>p. p\<lparr>money := money p - bestBid, dice := dice p @ [md ! nat dieIx]\<rparr>)
                             players,
                           md[nat dieIx := - 1], confl)
                        else st)
                 else (players, md,
                       confl @ [MarketConflict (''market-'' @ showInt dieIx @ ''-'' @ showInt t)
                                  dieIx winners]))))"

definition resolveMarket ::
  "int \<Rightarrow> int \<Rightarrow> (string \<times> marketBid) list \<Rightarrow> player list \<Rightarrow> int list
     \<Rightarrow> player list \<times> int list \<times> conflict list"
where
  "resolveMarket t minPrice entries players md =
     fold (marketStep t) (groupBids minPrice entries) (players, md, [])"

definition alarmMarketPhase :: "env \<Rightarrow> gameConfig \<Rightarrow> room \<Rightarrow> room \<times> outbound list" where
  "alarmMarketPhase e config s =
     (let pending = st_pending s;
          md0 = (case marketDice config of None \<Rightarrow> [] | Some d \<Rightarrow> d);
          minPrice = (case marketMinPrice config of None \<Rightarrow> MARKET_MIN_PRICE | Some m \<Rightarrow> m)
      in case resolveMarket (now e) minPrice (market pending) (st_players s) md0 of
           (players, md, confl) \<Rightarrow>
             if confl \<noteq> [] then
               andThen (setAlarm (now e + AUCTION_DURATION_MS)
                 (s\<lparr>st_players := players,
                    st_pending := pending\<lparr>conflicts := confl, auctionBids := []\<rparr>,
                    st_config := Some (config\<lparr>phase := Auction, marketDice := Some md,
                                          phaseEndsAt := Some (now e + AUCTION_DURATION_MS)\<rparr>)\<rparr>))
                 (broadcastState e)
             else
               andThen (setAlarm (now e + BUY_DURATION_MS)
                 (s\<lparr>st_players := players,
                    st_config := Some (config\<lparr>phase := Buy_phase,
                                          marketDice := Some (filter (\<lambda>v. v \<noteq> - 1) md),
                                          phaseEndsAt := Some (now e + BUY_DURATION_MS)\<rparr>),
                    st_pending := emptyPendingActions\<rparr>))
                 (broadcastState e))"

subsection \<open>path\_phase and the entry into it\<close>

definition dealHands :: "nat list list \<Rightarrow> player list \<Rightarrow> player list" where
  "dealHands draws players =
     map (\<lambda>kp. if dice (snd kp) = []
               then (snd kp)\<lparr>dice := randomDiceArray 3
                                        (if fst kp < length draws then draws ! fst kp else [])\<rparr>
               else snd kp)
         (enumerate 0 players)"

definition alarmPathPhase :: "env \<Rightarrow> gameConfig \<Rightarrow> room \<Rightarrow> room \<times> outbound list" where
  "alarmPathPhase e config s =
     andThen (setAlarm (now e + 5000)
       (s\<lparr>st_players := dealHands (handDraws e) (st_players s),
          st_config := Some (config\<lparr>phase := Round_end, phaseEndsAt := Some (now e + 5000)\<rparr>)\<rparr>))
       (broadcastState e)"

text \<open>
  The common tail of the buy and auction branches, once players and grid are stored:
  compute the auto-ready players, store the fresh pending actions and the new config, and
  either call \<open>alarm\<close> again at once (it then runs the path\_phase branch on what was just
  stored) or call \<open>setAlarm\<close>; the broadcast that follows is reached in neither case.
\<close>

definition enterPathPhase :: "env \<Rightarrow> gameConfig \<Rightarrow> room \<Rightarrow> room \<times> outbound list" where
  "enterPathPhase e newConfig s =
     (let autoPathReady = computeAutoPathReady (st_players s) (st_grid s);
          s1 = s\<lparr>st_pending := emptyPendingActions\<lparr>pathReady := autoPathReady\<rparr>,
                 st_config := Some newConfig\<rparr>
      in if st_players s \<noteq> [] \<and> length autoPathReady \<ge> length (st_players s)
         then andThen (alarmPathPhase e newConfig s1) (broadcastState e)
         else andThen (setAlarm (now e + PATH_DURATION_MS) s1) (broadcastState e))"

subsection \<open>buy\_phase\<close>

definition claimKey :: "string \<Rightarrow> string \<Rightarrow> string" where
  "claimKey pid cid = pid @ '':'' @ cid"

definition collectAct ::
  "string \<Rightarrow> buyAction \<Rightarrow> string list \<times> (string \<times> role) list \<times> (string \<times> string list) list
     \<Rightarrow> string list \<times> (string \<times> role) list \<times> (string \<times> string list) list"
where
  "collectAct pid act st =
     (case st of (seen, roles, byCell) \<Rightarrow>
        if cellId act = [] \<or> cellId act \<in> set seen then st
        else (let lst = (case map_of byCell (cellId act) of None \<Rightarrow> [] | Some l \<Rightarrow> l);
                  lst' = (if pid \<in> set lst then lst else lst @ [pid])
              in (cellId act # seen,
                  AList.update (claimKey pid (cellId act)) (buyRole act) roles,
                  AList.update (cellId act) lst' byCell)))"

definition collectPlayer ::
  "string \<times> buyAction list \<Rightarrow> (string \<times> role) list \<times> (string \<times> string list) list
     \<Rightarrow> (string \<times> role) list \<times> (string \<times> string list) list"
where
  "collectPlayer ent st =
     (case st of (roles, byCell) \<Rightarrow> snd (fold (collectAct (fst ent)) (snd ent) ([], roles, byCell)))"

definition collectBuys ::
  "(string \<times> buyAction list) list \<Rightarrow> (string \<times> role) list \<times> (string \<times> string list) list" where
  "collectBuys entries = fold collectPlayer entries ([], [])"

definition classifyCell ::
  "int \<Rightarrow> cell list \<Rightarrow> player list \<Rightarrow> (string \<times> role) list \<Rightarrow> string \<times> string list
     \<Rightarrow> (string \<times> string \<times> role) list \<times> conflict list
     \<Rightarrow> (string \<times> string \<times> role) list \<times> conflict list"
where
  "classifyCell t grid players roles ent st =
     (case st of (toApply, confl) \<Rightarrow>
       (let cid = fst ent; pids = snd ent in
        if length pids = 1 then
          (case findCell cid grid of
             None \<Rightarrow> st
           | Some c \<Rightarrow>
              (case findPlayer (hd pids) players of
                 None \<Rightarrow> st
               | Some pl \<Rightarrow>
                  (case map_of roles (claimKey (hd pids) cid) of
                     None \<Rightarrow> st
                   | Some rl \<Rightarrow>
                       if \<not> blocked c \<and> diceValue c \<in> set (dice pl)
                       then (toApply @ [(hd pids, cid, rl)], confl)
                       else st)))
        else (toApply,
              confl @ [CellConflict (''conflict-'' @ cid @ ''-'' @ showInt t) cid pids])))"

definition dieCounts :: "int list \<Rightarrow> int \<Rightarrow> int" where
  "dieCounts ds = fold (\<lambda>d c. c(d := c d + 1)) ds (\<lambda>_. 0)"

definition playerDicePool :: "player list \<Rightarrow> string \<Rightarrow> (int \<Rightarrow> int) option" where
  "playerDicePool players =
     fold (\<lambda>p m. m(playerId p \<mapsto> dieCounts (dice p))) players Map.empty"

definition poolStep ::
  "cell list \<Rightarrow> string \<times> string \<times> role
     \<Rightarrow> (string \<Rightarrow> (int \<Rightarrow> int) option) \<times> (string \<times> string \<times> role) list
     \<Rightarrow> (string \<Rightarrow> (int \<Rightarrow> int) option) \<times> (string \<times> string \<times> role) list"
where
  "poolStep grid act st =
     (case st of (pool, kept) \<Rightarrow>
        (case findCell (fst (snd act)) grid of
           None \<Rightarrow> st
         | Some c \<Rightarrow>
            (case pool (fst act) of
               None \<Rightarrow> st
             | Some cnt \<Rightarrow>
                 if cnt (diceValue c) \<le> 0 then st
                 else (pool(fst act \<mapsto> cnt(diceValue c := cnt (diceValue c) - 1)),
                       kept @ [act]))))"

definition filterToApply ::
  "cell list \<Rightarrow> player list \<Rightarrow> (string \<times> string \<times> role) list \<Rightarrow> (string \<times> string \<times> role) list" where
  "filterToApply grid players toApply =
     snd (fold (poolStep grid) toApply (playerDicePool players, []))"

definition commitBuy ::
  "string \<times> string \<times> role \<Rightarrow> cell list \<times> player list \<Rightarrow> cell list \<times> player list" where
  "commitBuy act st =
     (case st of (grid, players) \<Rightarrow>
        (case findCell (fst (snd act)) grid of
           None \<Rightarrow> st
         | Some c \<Rightarrow>
            (updateFirst (\<lambda>x. cell_id x = fst (snd act))
               (\<lambda>x. x\<lparr>owners := Some (pushOwner (fst act) (snd (snd act)) (owners_of x))\<rparr>) grid,
             updateFirst (\<lambda>p. playerId p = fst act)
               (\<lambda>p. p\<lparr>dice := remove1 (diceValue c) (dice p)\<rparr>) players)))"

text \<open>The claims a buy-phase resolution retains, and the conflicts it detects.\<close>

definition buyToApply :: "int \<Rightarrow> room \<Rightarrow> (string \<times> string \<times> role) list \<times> conflict list" where
  "buyToApply t s =
     (case collectBuys (buy (st_pending s)) of
        (roles, byCell) \<Rightarrow>
          fold (classifyCell t (st_grid s) (st_players s) roles) byCell ([], []))"

definition buyFiltered :: "int \<Rightarrow> room \<Rightarrow> (string \<times> string \<times> role) list" where
  "buyFiltered t s = filterToApply (st_grid s) (st_players s) (fst (buyToApply t s))"

definition alarmBuyPhase :: "env \<Rightarrow> gameConfig \<Rightarrow> room \<Rightarrow> room \<times> outbound list" where
  "alarmBuyPhase e config s =
     (let pending = st_pending s;
          confl = snd (buyToApply (now e) s)
      in case fold commitBuy (buyFiltered (now e) s) (st_grid s, st_players s) of
           (grid, players) \<Rightarrow>
             if confl \<noteq> [] then
               andThen (setAlarm (now e + AUCTION_DURATION_MS)
                 (s\<lparr>st_pending := pending\<lparr>conflicts := confl, auctionBids := []\<rparr>,
                    st_config := Some (config\<lparr>phase := Auction,
                                          phaseEndsAt := Some (now e + AUCTION_DURATION_MS)\<rparr>),
                    st_players := players, st_grid := grid\<rparr>))
                 (broadcastState e)
             else
               enterPathPhase e
                 (config\<lparr>phase := Path_phase, phaseEndsAt := Some (now e + PATH_DURATION_MS)\<rparr>)
                 (s\<lparr>st_players := players, st_grid := grid\<rparr>))"

subsection \<open>auction\<close>

definition bidOf :: "(string \<times> int) list \<Rightarrow> string \<Rightarrow> int" where
  "bidOf bids pid = (case map_of bids pid of None \<Rightarrow> 0 | Some b \<Rightarrow> b)"

definition auctionBest :: "(string \<times> int) list \<Rightarrow> string list \<Rightarrow> int" where
  "auctionBest bids pids =
     fold (\<lambda>pid best. if bidOf bids pid > best then bidOf bids pid else best) pids 0"

definition bestPlayerOf :: "(string \<times> int) list \<Rightarrow> string list \<Rightarrow> string option" where
  "bestPlayerOf bids pids =
     (case find (\<lambda>pid. bidOf bids pid = auctionBest bids pids) pids of
        Some p \<Rightarrow> Some p
      | None \<Rightarrow> (case pids of [] \<Rightarrow> None | p # _ \<Rightarrow> Some p))"

definition resolveMarketConflict ::
  "(string \<times> int) list \<Rightarrow> int \<Rightarrow> string list \<Rightarrow> player list \<times> int list \<Rightarrow> player list \<times> int list" where
  "resolveMarketConflict bids dieIx pids st =
     (case st of (players, md) \<Rightarrow>
       (let bestBid = auctionBest bids pids in
        case bestPlayerOf bids pids of
          None \<Rightarrow> st
        | Some bestPlayer \<Rightarrow>
           (case findPlayer bestPlayer players of
              None \<Rightarrow> st
            | Some pl \<Rightarrow>
                if dieIx \<ge> 0 \<and> dieIx < int (length md) \<and> md ! nat dieIx \<noteq> - 1 \<and> money pl \<ge> bestBid
                then (updateFirst (\<lambda>p. playerId p = bestPlayer)
                        (\<lambda>p. p\<lparr>dice := dice p @ [md ! nat dieIx], money := money p - bestBid\<rparr>)
                        players,
                      md[nat dieIx := - 1])
                else st)))"

definition declaredRole :: "(string \<times> buyAction list) list \<Rightarrow> string \<Rightarrow> string \<Rightarrow> role option" where
  "declaredRole buys pid cid =
     (case map_of buys pid of
        None \<Rightarrow> None
      | Some acts \<Rightarrow> map_option buyRole (find (\<lambda>a. cellId a = cid) acts))"

definition cellWinnerStep ::
  "(string \<times> buyAction list) list \<Rightarrow> string \<Rightarrow> int \<Rightarrow> int \<Rightarrow> string
     \<Rightarrow> cellOwner list \<times> player list \<Rightarrow> cellOwner list \<times> player list"
where
  "cellWinnerStep buys cid dv bestBid pid st =
     (case st of (os, players) \<Rightarrow>
        (case findPlayer pid players of
           None \<Rightarrow> st
         | Some pl \<Rightarrow>
            (case declaredRole buys pid cid of
               None \<Rightarrow> st
             | Some rl \<Rightarrow>
                 if money pl < bestBid then st
                 else if dv \<notin> set (dice pl) then st
                 else (pushOwner pid rl os,
                       updateFirst (\<lambda>p. playerId p = pid)
                         (\<lambda>p. p\<lparr>money := money p - bestBid, dice := remove1 dv (dice p)\<rparr>)
                         players))))"

definition resolveCellConflict ::
  "(string \<times> buyAction list) list \<Rightarrow> (string \<times> int) list \<Rightarrow> string \<Rightarrow> string list
     \<Rightarrow> cell list \<times> player list \<Rightarrow> cell list \<times> player list"
where
  "resolveCellConflict buys bids cid pids st =
     (case st of (grid, players) \<Rightarrow>
        (case findCell cid grid of
           None \<Rightarrow> st
         | Some c \<Rightarrow>
            (let bestBid = auctionBest bids pids;
                 winners = filter (\<lambda>pid. bidOf bids pid = bestBid) pids
             in case fold (cellWinnerStep buys cid (diceValue c) bestBid) winners
                       (owners_of c, players) of
                  (os, players') \<Rightarrow>
                    (updateFirst (\<lambda>x. cell_id x = cid) (\<lambda>x. x\<lparr>owners := Some os\<rparr>) grid,
                     players'))))"

definition resolveConflict ::
  "pendingActions \<Rightarrow> conflict \<Rightarrow> cell list \<times> player list \<times> int list
     \<Rightarrow> cell list \<times> player list \<times> int list"
where
  "resolveConflict pending c st =
     (case st of (grid, players, md) \<Rightarrow>
       (let bids = (case map_of (auctionBids pending) (conflictId c) of None \<Rightarrow> [] | Some b \<Rightarrow> b) in
        case c of
          MarketConflict _ dieIx pids \<Rightarrow>
            (case resolveMarketConflict bids dieIx pids (players, md) of
               (players', md') \<Rightarrow> (grid, players', md'))
        | CellConflict _ cid pids \<Rightarrow>
            (case resolveCellConflict (buy pending) bids cid pids (grid, players) of
               (grid', players') \<Rightarrow> (grid', players', md))))"

definition alarmAuction :: "env \<Rightarrow> gameConfig \<Rightarrow> room \<Rightarrow> room \<times> outbound list" where
  "alarmAuction e config s =
     (let pending = st_pending s;
          md0 = (case marketDice config of None \<Rightarrow> [] | Some d \<Rightarrow> d)
      in case fold (resolveConflict pending) (conflicts pending) (st_grid s, st_players s, md0) of
           (grid, players, md) \<Rightarrow>
             enterPathPhase e
               (config\<lparr>phase := Path_phase, marketDice := Some (filter (\<lambda>v. v \<noteq> - 1) md),
                       phaseEndsAt := Some (now e + PATH_DURATION_MS)\<rparr>)
               (s\<lparr>st_players := players, st_grid := grid\<rparr>))"

subsection \<open>round\_end, ended, and the dispatch on the phase\<close>

definition myCells :: "cell list \<Rightarrow> string \<Rightarrow> nat" where
  "myCells grid pid = length (filter (\<lambda>c. list_ex (\<lambda>ow. ownerId ow = pid) (owners_of c)) grid)"

definition pickWinner :: "cell list \<Rightarrow> player list \<Rightarrow> player option" where
  "pickWinner grid players =
     (case players of
        [] \<Rightarrow> None
      | p0 # _ \<Rightarrow>
          Some (fold (\<lambda>p best.
                        if money p > money best then p
                        else if money p = money best
                                \<and> myCells grid (playerId p) > myCells grid (playerId best) then p
                        else best)
                     players p0))"

text \<open>With no player, \<open>players[0]\<close> is undefined: the new config is stored, and reading
  the id of the winner throws before the winner is stored or anything is broadcast.  With
  a player, the last round ends with the broadcast followed by \<open>setAlarm\<close>.\<close>

definition alarmRoundEnd :: "env \<Rightarrow> gameConfig \<Rightarrow> room \<Rightarrow> room \<times> outbound list" where
  "alarmRoundEnd e config s =
     (let roundIndex' = roundIndex config + 1 in
      if roundIndex' \<ge> roundCount config then
        (let endAt = now e + ROOM_CLEANUP_DELAY_MS;
             s1 = s\<lparr>st_config := Some (config\<lparr>phase := Ended, roundIndex := roundIndex',
                                              phaseEndsAt := Some endAt\<rparr>)\<rparr>
         in case pickWinner (st_grid s) (st_players s) of
              None \<Rightarrow> (s1, [Uncaught])
            | Some best \<Rightarrow>
                andThen (broadcastState e (s1\<lparr>st_winner := Some (playerId best)\<rparr>))
                        (setAlarm endAt))
      else
        andThen (setAlarm (now e + 2000)
          (s\<lparr>st_pathUsed := Some [],
             st_config := Some (config\<lparr>phase := Round_start, roundIndex := roundIndex',
                                   marketDice := Some (randomDiceArray (length (st_players s) - 1)
                                                         (marketDraws e)),
                                   phaseEndsAt := Some (now e + 2000)\<rparr>)\<rparr>))
          (broadcastState e))"

definition cleanupRoom :: "room \<Rightarrow> room" where
  "cleanupRoom s =
     s\<lparr>st_config := None, st_players := [], st_grid := [], st_pending := emptyPendingActions,
       st_paths := [], st_winner := None, st_pathUsed := None, st_attach := (\<lambda>_. None)\<rparr>"

definition deadlinePassed :: "env \<Rightarrow> gameConfig \<Rightarrow> bool" where
  "deadlinePassed e config =
     (case phaseEndsAt config of None \<Rightarrow> False | Some t \<Rightarrow> t \<noteq> 0 \<and> now e \<ge> t)"

definition alarm :: "env \<Rightarrow> room \<Rightarrow> room \<times> outbound list" where
  "alarm e s =
     (case st_config s of
        None \<Rightarrow> (s, [])
      | Some config \<Rightarrow>
         (case phase config of
            Round_start \<Rightarrow> alarmRoundStart e config s
          | Market_phase \<Rightarrow> alarmMarketPhase e config s
          | Buy_phase \<Rightarrow> alarmBuyPhase e config s
          | Auction \<Rightarrow> alarmAuction e config s
          | Path_phase \<Rightarrow> alarmPathPhase e config s
          | Round_end \<Rightarrow> alarmRoundEnd e config s
          | Ended \<Rightarrow> (if deadlinePassed e config then (cleanupRoom s, []) else (s, []))
          | Lobby \<Rightarrow> (s, [])))"

section \<open>Inbound messages\<close>

text \<open>The player a connection is joined as: \<open>!playerId\<close> holds for \<open>null\<close> and for the
  empty string.\<close>

definition joinedAs :: "room \<Rightarrow> nat \<Rightarrow> string option" where
  "joinedAs s ws =
     (case st_attach s ws of None \<Rightarrow> None | Some pid \<Rightarrow> if pid = [] then None else Some pid)"

definition phaseIs :: "room \<Rightarrow> gamePhase \<Rightarrow> bool" where
  "phaseIs s ph = (case st_config s of None \<Rightarrow> False | Some config \<Rightarrow> phase config = ph)"

definition notJoined :: "env \<Rightarrow> nat \<Rightarrow> room \<Rightarrow> room \<times> outbound list" where
  "notJoined e ws s = thenBroadcast e (s, [SendTo ws (ErrorMsg ''Not joined to this room.'')])"

definition initialize :: "int \<Rightarrow> room \<Rightarrow> room" where
  "initialize n s =
     s\<lparr>st_config := Some \<lparr>roundCount = n, phase = Lobby, roundIndex = 0, marketDice = None,
                          marketMinPrice = Some MARKET_MIN_PRICE, phaseEndsAt = None\<rparr>,
       st_players := [], st_grid := []\<rparr>"

definition emptyRoom :: room where
  "emptyRoom =
     \<lparr>st_config = None, st_players = [], st_grid = [], st_pending = emptyPendingActions,
      st_paths = [], st_winner = None, st_pathUsed = None,
      st_attach = (\<lambda>_. None)\<rparr>"

definition handleJoin :: "env \<Rightarrow> nat \<Rightarrow> string option \<Rightarrow> room \<Rightarrow> room \<times> outbound list" where
  "handleJoin e ws playerName s =
     (if \<not> phaseIs s Lobby then (s, [])
      else (let players = ensurePlayerColors (colorSupply e) (st_players s);
                displayName' = (case playerName of
                                  None \<Rightarrow> ''Player '' @ showNat (length players + 1)
                                | Some n \<Rightarrow> n);
                newPlayer = \<lparr>playerId = uuid e, displayName = displayName',
                             color = distinctPlayerColor
                                       (drop (length (filter (\<lambda>p. color p = []) (st_players s)))
                                          (colorSupply e)),
                             money = 0, dice = []\<rparr>
            in thenBroadcast e
                 (s\<lparr>st_players := players @ [newPlayer],
                    st_attach := (st_attach s)(ws \<mapsto> uuid e)\<rparr>,
                  [SendTo ws (Joined (uuid e))])))"

definition handleRejoin :: "env \<Rightarrow> nat \<Rightarrow> string \<Rightarrow> string option \<Rightarrow> room \<Rightarrow> room \<times> outbound list" where
  "handleRejoin e ws pid playerName s =
     (if list_ex (\<lambda>p. playerId p = pid) (st_players s)
      then thenBroadcast e (s\<lparr>st_attach := (st_attach s)(ws \<mapsto> pid)\<rparr>, [SendTo ws (Joined pid)])
      else if phaseIs s Lobby then handleJoin e ws playerName s
      else thenBroadcast e (s, [SendTo ws (ErrorMsg ''Rejoin failed for this room.'')]))"

text \<open>\<open>Math.floor(minCells * 0.1)\<close> is written as the integer division by 10.\<close>

definition handleStartGame :: "env \<Rightarrow> nat \<Rightarrow> room \<Rightarrow> room \<times> outbound list" where
  "handleStartGame e ws s =
     (let players = ensurePlayerColors (colorSupply e) (st_players s) in
      case st_config s of
        None \<Rightarrow> (s, [SendTo ws (ErrorMsg ''Need at least 2 players'')])
      | Some config \<Rightarrow>
          if phase config \<noteq> Lobby \<or> length players < 2
          then (s, [SendTo ws (ErrorMsg ''Need at least 2 players'')])
          else (let minCells = int (length players) * roundCount config;
                    blockedCount = min 15 (max 5 (minCells div 10));
                    grid = generateGrid (boardDraws e) minCells blockedCount;
                    marketDice' = randomDiceArray (length players - 1) (marketDraws e);
                    players' = map (\<lambda>kp. (snd kp)\<lparr>money := STARTING_MONEY,
                                    dice := randomDiceArray 3
                                      (if fst kp < length (handDraws e) then handDraws e ! fst kp else [])\<rparr>)
                                 (enumerate 0 players);
                    newConfig = config\<lparr>phase := Round_start, roundIndex := 0,
                                  marketDice := Some marketDice',
                                  marketMinPrice := Some MARKET_MIN_PRICE,
                                  phaseEndsAt := Some (now e + 2000)\<rparr>
                in andThen (setAlarm (now e + 2000)
                     (s\<lparr>st_config := Some newConfig, st_players := players', st_grid := grid,
                        st_pending := emptyPendingActions, st_paths := []\<rparr>))
                     (broadcastState e)))"

definition handleMarketBid :: "env \<Rightarrow> nat \<Rightarrow> int \<Rightarrow> int \<Rightarrow> room \<Rightarrow> room \<times> outbound list" where
  "handleMarketBid e ws dieIx amt s =
     (case joinedAs s ws of
        None \<Rightarrow> notJoined e ws s
      | Some pid \<Rightarrow>
         (case st_config s of
            None \<Rightarrow> broadcastState e s
          | Some config \<Rightarrow>
             if phase config \<noteq> Market_phase then broadcastState e s
             else if dieIx < 0
                     \<or> dieIx \<ge> int (length (case marketDice config of None \<Rightarrow> [] | Some d \<Rightarrow> d))
                  then (s, [])
             else if amt < (case marketMinPrice config of None \<Rightarrow> MARKET_MIN_PRICE | Some m \<Rightarrow> m)
                  then (s, [])
             else (let pending = st_pending s;
                       pending' = pending\<lparr>market := recordPut pid \<lparr>dieIndex = dieIx, amount = amt\<rparr>
                                                       (market pending),
                                          marketSkip := removeAll pid (marketSkip pending)\<rparr>;
                       s' = s\<lparr>st_pending := pending'\<rparr>;
                       readyCount = length (market pending') + length (marketSkip pending')
                   in if st_players s \<noteq> [] \<and> readyCount \<ge> length (st_players s)
                      then alarm e s' else broadcastState e s')))"

definition handleMarketSkip :: "env \<Rightarrow> nat \<Rightarrow> room \<Rightarrow> room \<times> outbound list" where
  "handleMarketSkip e ws s =
     (case joinedAs s ws of
        None \<Rightarrow> notJoined e ws s
      | Some pid \<Rightarrow>
         if \<not> phaseIs s Market_phase then broadcastState e s
         else (let pending = st_pending s;
                   pending' = pending\<lparr>market := AList.delete pid (market pending),
                                      marketSkip := keyAdd pid (marketSkip pending)\<rparr>;
                   s' = s\<lparr>st_pending := pending'\<rparr>;
                   readyCount = length (market pending') + length (marketSkip pending')
               in if st_players s \<noteq> [] \<and> readyCount \<ge> length (st_players s)
                  then alarm e s' else broadcastState e s'))"

definition handleMarketRecycle :: "env \<Rightarrow> nat \<Rightarrow> int \<Rightarrow> room \<Rightarrow> room \<times> outbound list" where
  "handleMarketRecycle e ws dieIx s =
     (case joinedAs s ws of
        None \<Rightarrow> (s, [])
      | Some pid \<Rightarrow>
         if \<not> phaseIs s Market_phase then (s, [])
         else (case findPlayer pid (st_players s) of
                 None \<Rightarrow> (s, [])
               | Some pl \<Rightarrow>
                   if dieIx < 0 \<or> dieIx \<ge> int (length (dice pl))
                   then (s, [SendTo ws (ErrorMsg ''Invalid die selected for recycle.'')])
                   else broadcastState e
                          (s\<lparr>st_players :=
                               updateFirst (\<lambda>p. playerId p = pid)
                                 (\<lambda>p. p\<lparr>dice := spliceOne (nat dieIx) (dice p),
                                        money := money p + 3\<rparr>)
                                 (st_players s)\<rparr>)))"

text \<open>\<open>cellById\<close> is a \<open>Map\<close> built from the grid's (id, cell) pairs: for a repeated id the
  last cell is the one kept.\<close>

definition cellById :: "cell list \<Rightarrow> string \<Rightarrow> cell option" where
  "cellById grid = map_of (rev (map (\<lambda>c. (cell_id c, c)) grid))"

definition queueStep ::
  "cell list \<Rightarrow> buyAction \<Rightarrow> (int \<Rightarrow> int) \<times> buyAction list \<Rightarrow> (int \<Rightarrow> int) \<times> buyAction list" where
  "queueStep grid action st =
     (case st of (dicePool, nextQueued) \<Rightarrow>
        (case cellById grid (cellId action) of
           None \<Rightarrow> st
         | Some target \<Rightarrow>
             if blocked target then st
             else if dicePool (diceValue target) \<le> 0 then st
             else (dicePool(diceValue target := dicePool (diceValue target) - 1),
                   nextQueued @ [action])))"

definition handleBuyCell :: "env \<Rightarrow> nat \<Rightarrow> string \<Rightarrow> role \<Rightarrow> room \<Rightarrow> room \<times> outbound list" where
  "handleBuyCell e ws cid rl s =
     (case joinedAs s ws of
        None \<Rightarrow> notJoined e ws s
      | Some pid \<Rightarrow>
         if \<not> phaseIs s Buy_phase then broadcastState e s
         else (case findCell cid (st_grid s) of
                 None \<Rightarrow> (s, [SendTo ws (ErrorMsg ''Invalid buy'')])
               | Some c \<Rightarrow>
                  (case findPlayer pid (st_players s) of
                     None \<Rightarrow> (s, [SendTo ws (ErrorMsg ''Invalid buy'')])
                   | Some pl \<Rightarrow>
                      if blocked c \<or> diceValue c \<notin> set (dice pl)
                      then (s, [SendTo ws (ErrorMsg ''Invalid buy'')])
                      else (let pending = st_pending s;
                                current = (case map_of (buy pending) pid of None \<Rightarrow> [] | Some a \<Rightarrow> a);
                                withoutCell = filter (\<lambda>a. cellId a \<noteq> cid) current;
                                candidate = withoutCell @ [\<lparr>cellId = cid, buyRole = rl\<rparr>];
                                nextQueued = snd (fold (queueStep (st_grid s)) candidate
                                                    (dieCounts (dice pl), []))
                            in if \<not> list_ex (\<lambda>a. cellId a = cid) nextQueued
                               then (s, [SendTo ws (ErrorMsg (''You can only queue as many ''
                                           @ showInt (diceValue c) @ ''s as dice you own.''))])
                               else broadcastState e
                                      (s\<lparr>st_pending :=
                                           pending\<lparr>buy := recordPut pid nextQueued (buy pending),
                                                   buyDone := removeAll pid (buyDone pending)\<rparr>\<rparr>)))))"

definition handleBuyCellCancel :: "env \<Rightarrow> nat \<Rightarrow> string \<Rightarrow> room \<Rightarrow> room \<times> outbound list" where
  "handleBuyCellCancel e ws cid s =
     (case joinedAs s ws of
        None \<Rightarrow> notJoined e ws s
      | Some pid \<Rightarrow>
         if \<not> phaseIs s Buy_phase then broadcastState e s
         else (let pending = st_pending s;
                   current = (case map_of (buy pending) pid of None \<Rightarrow> [] | Some a \<Rightarrow> a);
                   remaining = filter (\<lambda>a. cellId a \<noteq> cid) current;
                   buy' = (if remaining = [] then AList.delete pid (buy pending)
                           else recordPut pid remaining (buy pending))
               in broadcastState e
                    (s\<lparr>st_pending := pending\<lparr>buy := buy',
                                             buyDone := removeAll pid (buyDone pending)\<rparr>\<rparr>)))"

definition handleBuyDone :: "env \<Rightarrow> nat \<Rightarrow> room \<Rightarrow> room \<times> outbound list" where
  "handleBuyDone e ws s =
     (case joinedAs s ws of
        None \<Rightarrow> notJoined e ws s
      | Some pid \<Rightarrow>
         if \<not> phaseIs s Buy_phase then broadcastState e s
         else (let pending = st_pending s;
                   pending' = pending\<lparr>buyDone := keyAdd pid (buyDone pending)\<rparr>;
                   s' = s\<lparr>st_pending := pending'\<rparr>
               in if st_players s \<noteq> [] \<and> length (buyDone pending') \<ge> length (st_players s)
                  then alarm e s' else broadcastState e s'))"

definition handleAuctionBid :: "env \<Rightarrow> nat \<Rightarrow> string \<Rightarrow> int \<Rightarrow> room \<Rightarrow> room \<times> outbound list" where
  "handleAuctionBid e ws cfid amt s =
     (case joinedAs s ws of
        None \<Rightarrow> (s, [])
      | Some pid \<Rightarrow>
         if \<not> phaseIs s Auction then (s, [])
         else (let pending = st_pending s in
               case find (\<lambda>c. conflictId c = cfid \<and> pid \<in> set (playerIds c)) (conflicts pending) of
                 None \<Rightarrow> (s, [])
               | Some _ \<Rightarrow>
                  (let byPlayer = (case map_of (auctionBids pending) cfid of None \<Rightarrow> [] | Some b \<Rightarrow> b)
                   in broadcastState e
                        (s\<lparr>st_pending :=
                             pending\<lparr>auctionBids :=
                                       recordPut cfid (recordPut pid (max 0 amt) byPlayer)
                                         (auctionBids pending)\<rparr>\<rparr>))))"

text \<open>The loop over consecutive hexes of a submitted path: the first error, if any.\<close>

fun checkPath :: "string list \<Rightarrow> axial list \<Rightarrow> string option" where
  "checkPath blockedSet (a # b # rest) =
     (if \<not> list_ex (\<lambda>n. q n = q b \<and> r n = r b) (axialNeighbors a) then Some ''Path not contiguous''
      else if axialKey b \<in> set blockedSet then Some ''Path crosses blocked cell''
      else checkPath blockedSet (b # rest))"
| "checkPath blockedSet [a] = None"
| "checkPath blockedSet [] = None"

definition handlePath ::
  "env \<Rightarrow> nat \<Rightarrow> string \<Rightarrow> string \<Rightarrow> axial list \<Rightarrow> room \<Rightarrow> room \<times> outbound list" where
  "handlePath e ws prodId sellId pth s =
     (case joinedAs s ws of
        None \<Rightarrow> (s, [])
      | Some pid \<Rightarrow>
         if \<not> phaseIs s Path_phase then (s, [])
         else (case findCell prodId (st_grid s) of
                 None \<Rightarrow> (s, [])
               | Some producerCell \<Rightarrow>
                  if \<not> ownsAs pid Producer producerCell then (s, [])
                  else (case findCell sellId (st_grid s) of
                          None \<Rightarrow> (s, [])
                        | Some sellerCell \<Rightarrow>
                           if \<not> ownsAs pid Seller sellerCell then (s, [])
                           else if length pth < 2
                                   \<or> \<not> axialEquals (hd pth) \<lparr>q = q producerCell, r = r producerCell\<rparr>
                                   \<or> \<not> axialEquals (last pth) \<lparr>q = q sellerCell, r = r sellerCell\<rparr>
                                then (s, [SendTo ws (ErrorMsg ''Invalid path endpoints'')])
                           else (case checkPath
                                        (map (\<lambda>c. axialKey \<lparr>q = q c, r = r c\<rparr>)
                                           (filter blocked (st_grid s))) pth of
                                   Some err \<Rightarrow> (s, [SendTo ws (ErrorMsg err)])
                                 | None \<Rightarrow>
                                    (let revenue' = computePathRevenue (st_grid s) pid
                                                      producerCell sellerCell pth;
                                         pending = st_pending s
                                     in thenBroadcast e
                                          (s\<lparr>st_pending := pending\<lparr>pathReady := removeAll pid (pathReady pending)\<rparr>,
                                             st_paths := recordPut pid
                                                 \<lparr>producerId = prodId, sellerId = sellId,
                                                  path = pth, revenue = revenue'\<rparr> (st_paths s)\<rparr>,
                                           [SendTo ws (Path_revenue revenue')]))))))"

definition handlePathDone :: "env \<Rightarrow> nat \<Rightarrow> room \<Rightarrow> room \<times> outbound list" where
  "handlePathDone e ws s =
     (case joinedAs s ws of
        None \<Rightarrow> notJoined e ws s
      | Some pid \<Rightarrow>
         if \<not> phaseIs s Path_phase then broadcastState e s
         else (let pending = st_pending s;
                   pending' = pending\<lparr>pathReady := keyAdd pid (pathReady pending)\<rparr>;
                   s' = s\<lparr>st_pending := pending'\<rparr>
               in if st_players s \<noteq> [] \<and> length (pathReady pending') \<ge> length (st_players s)
                  then alarm e s' else broadcastState e s'))"

definition timedPhase :: "gamePhase \<Rightarrow> bool" where
  "timedPhase ph = (ph \<in> set [Round_start, Market_phase, Buy_phase, Auction, Path_phase, Round_end])"

definition maybeAdvanceTimedPhase :: "env \<Rightarrow> room \<Rightarrow> room \<times> outbound list" where
  "maybeAdvanceTimedPhase e s =
     (case st_config s of
        None \<Rightarrow> (s, [])
      | Some config \<Rightarrow>
          if timedPhase (phase config) \<and> deadlinePassed e config then alarm e s else (s, []))"

text \<open>
  The body of \<open>webSocketMessage\<close> runs inside \<open>try { ... } catch { }\<close>: an exception thrown
  by a handler ends the handling of the message and is ignored.
\<close>

definition catchIgnore :: "room \<times> outbound list \<Rightarrow> room \<times> outbound list" where
  "catchIgnore res = (fst res, filter (\<lambda>x. x \<noteq> Uncaught) (snd res))"

definition webSocketMessage :: "env \<Rightarrow> nat \<Rightarrow> inbound \<Rightarrow> room \<Rightarrow> room \<times> outbound list" where
  "webSocketMessage e ws msg s =
     catchIgnore
     (case msg of
        Tick \<Rightarrow> andThen (maybeAdvanceTimedPhase e s) (broadcastState e)
      | Join playerName \<Rightarrow> handleJoin e ws playerName s
      | Rejoin pid playerName \<Rightarrow> handleRejoin e ws pid playerName s
      | Start_game \<Rightarrow> handleStartGame e ws s
      | Buy_cell cid rl \<Rightarrow> handleBuyCell e ws cid rl s
      | Buy_cell_cancel cid \<Rightarrow> handleBuyCellCancel e ws cid s
      | Buy_done \<Rightarrow> handleBuyDone e ws s
      | Auction_bid cfid amt \<Rightarrow> handleAuctionBid e ws cfid amt s
      | Path prodId sellId pth \<Rightarrow> handlePath e ws prodId sellId pth s
      | Path_done \<Rightarrow> handlePathDone e ws s
      | Market_bid dieIx amt \<Rightarrow> handleMarketBid e ws dieIx amt s
      | Market_skip \<Rightarrow> handleMarketSkip e ws s
      | Market_recycle dieIx \<Rightarrow> handleMarketRecycle e ws dieIx s
      | Unknown \<Rightarrow> broadcastState e s)"

definition webSocketClose :: "env \<Rightarrow> room \<Rightarrow> room \<times> outbound list" where
  "webSocketClose e s = broadcastState e s"

text \<open>
  The states a room can be in: created by the directory (\<open>initialize\<close> on fresh storage),
  then any sequence of inbound messages, connection closes and calls of \<open>alarm\<close> by the
  runtime, with whatever the clock and the random draws supply.  (As no execution arms a
  wake-up time, the runtime has no occasion to call \<open>alarm\<close>; the rule is kept so that
  what holds of every reachable state also holds should it do so.)
\<close>

text \<open>The colour library returns a colour string, never the empty string.\<close>

definition envOk :: "env \<Rightarrow> bool" where
  "envOk e = list_all (\<lambda>c. c \<noteq> []) (colorSupply e)"

inductive reachable :: "room \<Rightarrow> bool" where
  reach_fresh: "reachable emptyRoom"
| reach_init: "reachable (initialize n emptyRoom)"
| reach_message: "reachable s \<Longrightarrow> envOk e \<Longrightarrow> reachable (fst (webSocketMessage e ws msg s))"
| reach_alarm: "reachable s \<Longrightarrow> envOk e \<Longrightarrow> reachable (fst (alarm e s))"
| reach_close: "reachable s \<Longrightarrow> envOk e \<Longrightarrow> reachable (fst (webSocketClose e s))"

text \<open>The phase an inbound action is addressed to: the one its handler checks for.\<close>

definition requiredPhase :: "inbound \<Rightarrow> gamePhase option" where
  "requiredPhase msg =
     (case msg of
        Market_bid _ _ \<Rightarrow> Some Market_phase
      | Market_skip \<Rightarrow> Some Market_phase
      | Market_recycle _ \<Rightarrow> Some Market_phase
      | Buy_cell _ _ \<Rightarrow> Some Buy_phase
      | Buy_cell_cancel _ \<Rightarrow> Some Buy_phase
      | Buy_done \<Rightarrow> Some Buy_phase
      | Auction_bid _ _ \<Rightarrow> Some Auction
      | Path _ _ _ \<Rightarrow> Some Path_phase
      | Path_done \<Rightarrow> Some Path_phase
      | _ \<Rightarrow> None)"

text \<open>A player record in good standing: it has a colour and its money is not negative.\<close>

definition playerOk :: "player \<Rightarrow> bool" where
  "playerOk p = (color p \<noteq> [] \<and> 0 \<le> money p)"

section \<open>A worked example room\<close>

text \<open>Two players on a small board; the room is parameterised by the phase it is in.\<close>

definition exOwner :: "string \<Rightarrow> role \<Rightarrow> cellOwner" where
  "exOwner pid rl = \<lparr>ownerId = pid, ownerRole = rl, roundsOwned = Some 0\<rparr>"

definition exPlayers :: "player list" where
  "exPlayers =
     [\<lparr>playerId = ''P1'', displayName = ''Ann'', color = ''#e11d48'', money = 10, dice = [3, 3]\<rparr>,
      \<lparr>playerId = ''P2'', displayName = ''Bob'', color = ''#2563eb'', money = 10, dice = [2, 5, 6]\<rparr>]"

definition exGrid :: "cell list" where
  "exGrid =
     [\<lparr>q = 0, r = 0, cell_id = ''cell-0-0'', diceValue = 3, producer = 9, seller = 4,
       blocked = False, owners = Some [exOwner ''P1'' Producer]\<rparr>,
      \<lparr>q = 1, r = 0, cell_id = ''cell-1-0'', diceValue = 2, producer = 6, seller = 3,
       blocked = False, owners = Some []\<rparr>,
      \<lparr>q = 2, r = 0, cell_id = ''cell-2-0'', diceValue = 6, producer = 2, seller = 7,
       blocked = False, owners = Some []\<rparr>,
      \<lparr>q = 3, r = 0, cell_id = ''cell-3-0'', diceValue = 3, producer = 1, seller = 9,
       blocked = False, owners = Some [exOwner ''P1'' Seller]\<rparr>,
      \<lparr>q = 1, r = 1, cell_id = ''cell-1-1'', diceValue = 4, producer = 8, seller = 8,
       blocked = True, owners = Some []\<rparr>,
      \<lparr>q = 0, r = 1, cell_id = ''cell-0-1'', diceValue = 5, producer = 5, seller = 5,
       blocked = False, owners = Some [exOwner ''P2'' Producer]\<rparr>]"

definition exConfig :: "gamePhase \<Rightarrow> gameConfig" where
  "exConfig ph =
     \<lparr>roundCount = 3, phase = ph, roundIndex = 0, marketDice = Some [4],
      marketMinPrice = Some 1, phaseEndsAt = Some 5000\<rparr>"

definition exRoom :: "gamePhase \<Rightarrow> room" where
  "exRoom ph =
     \<lparr>st_config = Some (exConfig ph),
      st_players = exPlayers, st_grid = exGrid, st_pending = emptyPendingActions,
      st_paths = [], st_winner = None, st_pathUsed = None,
      st_attach = (\<lambda>_. None)(0 \<mapsto> ''P1'', 1 \<mapsto> ''P2'')\<rparr>"

definition exEnv :: env where
  "exEnv = \<lparr>now = 6000, uuid = ''ab12cd34'', colorSupply = [''#16a34a''], marketDraws = [2],
            handDraws = [[0, 1, 2], [3, 4, 5]],
            boardDraws = \<lparr>blockShuffle = [], diceFaces = [], faceShuffle = [],
                          producerDraws = [], sellerDraws = []\<rparr>\<rparr>"

definition exPath :: "axial list" where
  "exPath = [\<lparr>q = 0, r = 0\<rparr>, \<lparr>q = 1, r = 0\<rparr>, \<lparr>q = 2, r = 0\<rparr>, \<lparr>q = 3, r = 0\<rparr>]"

text \<open>A longer way between the same two cells, through a cell owned by the second player.\<close>

definition exDetour :: "axial list" where
  "exDetour = [\<lparr>q = 0, r = 0\<rparr>, \<lparr>q = 0, r = 1\<rparr>, \<lparr>q = 1, r = 0\<rparr>, \<lparr>q = 2, r = 0\<rparr>,
               \<lparr>q = 2, r = - 1\<rparr>, \<lparr>q = 3, r = - 1\<rparr>, \<lparr>q = 4, r = - 1\<rparr>, \<lparr>q = 3, r = 0\<rparr>]"

text \<open>
  A run from the creation of a one-round room: two players join, the game starts on a
  board of seven cells, a tick after the deadline resolves the first round\_start, the
  first player bids 4 on the market die and the second skips, which resolves the market
  phase.
\<close>

definition exLater :: "int \<Rightarrow> env" where
  "exLater t = exEnv\<lparr>now := t\<rparr>"

definition exJoinEnv :: "string \<Rightarrow> string \<Rightarrow> env" where
  "exJoinEnv pid col = exEnv\<lparr>uuid := pid, colorSupply := [col]\<rparr>"

definition exStartEnv :: env where
  "exStartEnv = exEnv\<lparr>boardDraws := \<lparr>blockShuffle = [], diceFaces = [2, 0, 0, 0, 0, 0, 4],
                                        faceShuffle = [], producerDraws = [6, 1, 2, 3, 4, 5, 0],
                                        sellerDraws = [1, 2, 3, 4, 5, 6, 7]\<rparr>\<rparr>"

definition exR0 :: room where
  "exR0 = initialize 1 emptyRoom"

definition exR1 :: room where
  "exR1 = fst (webSocketMessage (exJoinEnv ''aaaa1111'' ''#e11d48'') 0 (Join (Some ''Ann'')) exR0)"

definition exR2 :: room where
  "exR2 = fst (webSocketMessage (exJoinEnv ''bbbb2222'' ''#2563eb'') 1 (Join (Some ''Bob'')) exR1)"

definition exR3 :: room where
  "exR3 = fst (webSocketMessage exStartEnv 0 Start_game exR2)"

definition exR4 :: room where
  "exR4 = fst (webSocketMessage (exLater 9000) 0 Tick exR3)"

definition exR5 :: room where
  "exR5 = fst (webSocketMessage exEnv 0 (Market_bid 0 4) exR4)"

definition exR6 :: room where
  "exR6 = fst (webSocketMessage exEnv 1 Market_skip exR5)"

text \<open>
  The board invariant: a blocked cell has no owner, and every cell id named by a queued buy
  or by a cell conflict is the id of an unblocked cell (when it is the id of a cell at all;
  \<open>find\<close> takes the first cell with that id).
\<close>

definition unblockedId :: "cell list \<Rightarrow> string \<Rightarrow> bool" where
  "unblockedId grid cid = (case findCell cid grid of None \<Rightarrow> True | Some c \<Rightarrow> \<not> blocked c)"

definition blockedFree :: "cell list \<Rightarrow> bool" where
  "blockedFree grid = list_all (\<lambda>c. blocked c \<longrightarrow> owners_of c = []) grid"

definition conflictOk :: "cell list \<Rightarrow> conflict \<Rightarrow> bool" where
  "conflictOk grid cf =
     (case cf of CellConflict _ cid _ \<Rightarrow> unblockedId grid cid | MarketConflict _ _ _ \<Rightarrow> True)"

definition pendingOk :: "cell list \<Rightarrow> pendingActions \<Rightarrow> bool" where
  "pendingOk grid pending =
     (list_all (\<lambda>ent. list_all (\<lambda>a. unblockedId grid (cellId a)) (snd ent)) (buy pending)
      \<and> list_all (conflictOk grid) (conflicts pending))"

definition boardOk :: "room \<Rightarrow> bool" where
  "boardOk s = (blockedFree (st_grid s) \<and> pendingOk (st_grid s) (st_pending s))"

definition shape :: "cell list \<Rightarrow> (string \<times> bool) list" where
  "shape grid = map (\<lambda>c. (cell_id c, blocked c)) grid"

text \<open>
  Notions used to state what buy-phase resolution retains.  \<open>keysOf xs\<close> is the order in
  which a \<open>Map\<close> enumerates its keys after they were set in the order \<open>xs\<close>.  The claims
  of a buffer are its (player, cell id) pairs in the order the resolution visits them.  A
  cell has the sole claimant \<open>pid\<close> when no other player's queue names it.  A claim is
  committable when its cell exists and is not blocked and its player exists and holds a
  die of the cell's value.
\<close>

definition keysOf :: "'a list \<Rightarrow> 'a list" where
  "keysOf xs = fold (\<lambda>x ks. if x \<in> set ks then ks else ks @ [x]) xs []"

definition flatClaims :: "(string \<times> buyAction list) list \<Rightarrow> (string \<times> string) list" where
  "flatClaims entries = concat (map (\<lambda>e. map (\<lambda>a. (fst e, cellId a)) (snd e)) entries)"

definition soleClaimant :: "(string \<times> buyAction list) list \<Rightarrow> string \<Rightarrow> string \<Rightarrow> bool" where
  "soleClaimant entries pid cid =
     list_all (\<lambda>e. fst e = pid \<or> \<not> list_ex (\<lambda>a. cellId a = cid) (snd e)) entries"

definition committable :: "cell list \<Rightarrow> player list \<Rightarrow> string \<Rightarrow> string \<Rightarrow> bool" where
  "committable grid players pid cid =
     (case findCell cid grid of
        None \<Rightarrow> False
      | Some c \<Rightarrow> \<not> blocked c
          \<and> (case findPlayer pid players of None \<Rightarrow> False | Some pl \<Rightarrow> diceValue c \<in> set (dice pl)))"

definition needsDie :: "cell list \<Rightarrow> int \<Rightarrow> string \<Rightarrow> bool" where
  "needsDie grid v cid = (case findCell cid grid of None \<Rightarrow> False | Some c \<Rightarrow> diceValue c = v)"

definition wellFormedQueues :: "(string \<times> buyAction list) list \<Rightarrow> bool" where
  "wellFormedQueues entries =
     (distinct (map fst entries)
      \<and> list_all (\<lambda>e. distinct (map cellId (snd e)) \<and> \<not> list_ex (\<lambda>a. cellId a = []) (snd e)) entries)"

text \<open>
  Auxiliary notions for the dice pool.  \<open>dvOf g a\<close> is the face a retained claim needs,
  \<open>leftOf pool pid v\<close> the units of face \<open>v\<close> a pool still holds for a player, and
  \<open>addClaim\<close> the effect of one claim on the map from cell ids to claimants.
\<close>

definition dvOf :: "cell list \<Rightarrow> string \<times> string \<times> role \<Rightarrow> int option" where
  "dvOf g a = map_option diceValue (findCell (fst (snd a)) g)"

definition leftOf :: "(string \<Rightarrow> (int \<Rightarrow> int) option) \<Rightarrow> string \<Rightarrow> int \<Rightarrow> int" where
  "leftOf pool pid v = (case pool pid of None \<Rightarrow> 0 | Some cnt \<Rightarrow> cnt v)"

definition addClaim :: "string \<times> string \<Rightarrow> (string \<times> string list) list \<Rightarrow> (string \<times> string list) list" where
  "addClaim pc m =
     (let lst = (case map_of m (snd pc) of None \<Rightarrow> [] | Some l \<Rightarrow> l)
      in AList.update (snd pc) (if fst pc \<in> set lst then lst else lst @ [fst pc]) m)"

text \<open>
  What committing a list of retained claims does to one cell: the owner entries of the
  claims naming it are appended, in order, each with zero rounds owned.
\<close>

definition committedCell :: "(string \<times> string \<times> role) list \<Rightarrow> cell \<Rightarrow> cell" where
  "committedCell acts c =
     (if list_ex (\<lambda>a. fst (snd a) = cell_id c) acts
      then c\<lparr>owners := Some (owners_of c
                @ map (\<lambda>a. \<lparr>ownerId = fst a, ownerRole = snd (snd a), roundsOwned = Some 0\<rparr>)
                      (filter (\<lambda>a. fst (snd a) = cell_id c) acts))\<rparr>
      else c)"

text \<open>
  A buy phase in which the first player holds the dice 3, 3 and has queued three free cells
  that all require a 3; the second player has queued one cell requiring a 2.
\<close>

definition exBuyGrid :: "cell list" where
  "exBuyGrid =
     [\<lparr>q = 0, r = 0, cell_id = ''cell-0-0'', diceValue = 3, producer = 9, seller = 4,
       blocked = False, owners = Some []\<rparr>,
      \<lparr>q = 1, r = 0, cell_id = ''cell-1-0'', diceValue = 3, producer = 6, seller = 3,
       blocked = False, owners = Some []\<rparr>,
      \<lparr>q = 2, r = 0, cell_id = ''cell-2-0'', diceValue = 3, producer = 2, seller = 7,
       blocked = False, owners = Some []\<rparr>,
      \<lparr>q = 3, r = 0, cell_id = ''cell-3-0'', diceValue = 2, producer = 1, seller = 9,
       blocked = False, owners = Some []\<rparr>]"

definition exBuyQueue :: "buyAction list" where
  "exBuyQueue =
     [\<lparr>cellId = ''cell-0-0'', buyRole = Producer\<rparr>,
      \<lparr>cellId = ''cell-1-0'', buyRole = Seller\<rparr>,
      \<lparr>cellId = ''cell-2-0'', buyRole = Producer\<rparr>]"

definition exBuyRoom :: room where
  "exBuyRoom =
     (exRoom Buy_phase)
       \<lparr>st_grid := exBuyGrid,
        st_pending := emptyPendingActions
          \<lparr>buy := [(''P1'', exBuyQueue), (''P2'', [\<lparr>cellId = ''cell-3-0'', buyRole = Producer\<rparr>])]\<rparr>\<rparr>"





section \<open>Facts about the helpers\<close>

declare showNat.simps [simp del]

declare findRadius.simps [simp del]

lemma showNat_small: "n < 10 \<Longrightarrow> showNat n = [digitChar n]"
  by (simp add: showNat.simps)

lemma recordPut_set: "set (recordPut k v m) \<subseteq> insert (k, v) (set m)"
proof -
  have u: "set (AList.update k v m) \<subseteq> insert (k, v) (set m)"
    by (induction m) auto
  have "set (takeWhile P m @ x # dropWhile P m) = insert x (set m)" for P and x :: "string \<times> 'a"
    by (metis Un_insert_right list.simps(15) set_append takeWhile_dropWhile_id)
  then show ?thesis using u by (auto simp: recordPut_def split: option.splits)
qed


lemma map_of_insert_fresh:
  assumes "k \<notin> fst ` set (xs @ ys)"
  shows "map_of (xs @ (k, v) # ys) = (map_of (xs @ ys))(k \<mapsto> v)"
proof
  fix x
  show "map_of (xs @ (k, v) # ys) x = ((map_of (xs @ ys))(k \<mapsto> v)) x"
  proof (cases "x = k")
    case True
    have "k \<notin> fst ` set xs" using assms by auto
    then have "map_of xs k = None" by (simp add: map_of_eq_None_iff)
    then show ?thesis using True by (simp add: map_add_def)
  next
    case False
    then show ?thesis by (simp add: map_add_def split: option.splits)
  qed
qed

lemma map_of_recordPut: "map_of (recordPut k v m) = (map_of m)(k \<mapsto> v)"
proof (cases "k \<in> set (map fst m)")
  case True
  then show ?thesis by (simp add: recordPut_def update_conv')
next
  case False
  have f: "k \<notin> fst ` set (takeWhile P m @ dropWhile P m)" for P
    using False by simp
  have a: "map_of (takeWhile P m @ (k, v) # dropWhile P m) = (map_of m)(k \<mapsto> v)" for P
    using map_of_insert_fresh[OF f, of P v] by simp
  have b: "map_of (m @ [(k, v)]) = (map_of m)(k \<mapsto> v)"
    using map_of_insert_fresh[of k m "[]" v] False by simp
  show ?thesis using False a b by (simp add: recordPut_def split: option.splits)
qed

lemma recordPut_distinct:
  assumes "distinct (map fst m)"
  shows "distinct (map fst (recordPut k v m))"
proof (cases "k \<in> set (map fst m)")
  case True
  then show ?thesis using assms by (simp add: recordPut_def distinct_update)
next
  case False
  have "distinct (map fst (takeWhile P m @ (k, v) # dropWhile P m))" for P
  proof -
    have d: "distinct (map fst (takeWhile P m) @ map fst (dropWhile P m))"
      using assms by (metis map_append takeWhile_dropWhile_id)
    have "k \<notin> set (map fst (takeWhile P m))" "k \<notin> set (map fst (dropWhile P m))"
      using False by (auto dest: set_takeWhileD set_dropWhileD)
    then show ?thesis using d by auto
  qed
  then show ?thesis using False assms by (simp add: recordPut_def split: option.splits)
qed

lemma andThen_setAlarm [simp]: "andThen (setAlarm t s) k = (s, [Uncaught])"
  by (simp add: andThen_def setAlarm_def)

lemma andThen_Uncaught [simp]: "andThen (s, [Uncaught]) k = (s, [Uncaught])"
  by (simp add: andThen_def)

lemma broadcast_then_setAlarm [simp]:
  "andThen (broadcastState e s) (setAlarm t) = (fst (broadcastState e s), [StateBroadcast, Uncaught])"
  by (simp add: andThen_def setAlarm_def broadcastState_def)

lemma andThen_inv:
  "I (fst res) \<Longrightarrow> (\<And>s. I s \<Longrightarrow> I (fst (k s))) \<Longrightarrow> I (fst (andThen res k))"
  by (cases res) (auto simp: andThen_def split: prod.splits, metis fst_conv)

lemma fst_catchIgnore [simp]: "fst (catchIgnore res) = fst res"
  by (simp add: catchIgnore_def)

lemma catchIgnore_plain:
  "Uncaught \<notin> set out \<Longrightarrow> catchIgnore (s, out) = (s, out)"
  by (auto simp: catchIgnore_def filter_id_conv)

lemma alarmPathPhase_eq:
  "alarmPathPhase e config s =
     (s\<lparr>st_players := dealHands (handDraws e) (st_players s),
        st_config := Some (config\<lparr>phase := Round_end, phaseEndsAt := Some (now e + 5000)\<rparr>)\<rparr>,
      [Uncaught])"
  by (simp add: alarmPathPhase_def)

lemma enterPathPhase_eq:
  "enterPathPhase e newConfig s =
     (let autoPathReady = computeAutoPathReady (st_players s) (st_grid s);
          s1 = s\<lparr>st_pending := emptyPendingActions\<lparr>pathReady := autoPathReady\<rparr>,
                 st_config := Some newConfig\<rparr>
      in if st_players s \<noteq> [] \<and> length autoPathReady \<ge> length (st_players s)
         then (s1\<lparr>st_players := dealHands (handDraws e) (st_players s),
                  st_config := Some (newConfig\<lparr>phase := Round_end,
                                       phaseEndsAt := Some (now e + 5000)\<rparr>)\<rparr>,
               [Uncaught])
         else (s1, [Uncaught]))"
  by (simp add: enterPathPhase_def Let_def alarmPathPhase_eq)

lemma broadcast_grid [simp]: "st_grid (fst (broadcastState e s)) = st_grid s"
  by (simp add: broadcastState_def)

lemma broadcast_paths [simp]: "st_paths (fst (broadcastState e s)) = st_paths s"
  by (simp add: broadcastState_def)

lemma thenBroadcast_paths [simp]: "st_paths (fst (thenBroadcast e (s, out))) = st_paths s"
  by (simp add: thenBroadcast_def broadcastState_def split: prod.splits)

section \<open>Path revenue\<close>

lemma fold_count_filter:
  "fold (\<lambda>i n. if P (f i) then n + 1 else n) js (n0::int) = n0 + int (length (filter P (map f js)))"
  by (induction js arbitrary: n0) auto

lemma interior_nth: "map ((!) xs) [1..<length xs - 1] = butlast (tl xs)"
  by (rule nth_equalityI) (auto simp: nth_butlast nth_tl)

lemma enemyTerritory_count:
  "fold (\<lambda>i n. if isEnemyHex grid pid (pth ! i) then n + 1 else n) [1..<length pth - 1] (0::int)
     = int (length (filter (isEnemyHex grid pid) (butlast (tl pth))))"
proof -
  have "fold (\<lambda>i n. if isEnemyHex grid pid (pth ! i) then n + 1 else n) [1..<length pth - 1] (0::int)
      = int (length (filter (isEnemyHex grid pid) (map ((!) pth) [1..<length pth - 1])))"
    by (simp only: fold_count_filter)
  then show ?thesis by (simp only: interior_nth)
qed

lemma computePathRevenue_formula:
  "computePathRevenue grid pid P S pth =
     producer P * max 0 (min (seller S - (int (length pth) - 1)
        - 2 * int (length (filter (isEnemyHex grid pid) (butlast (tl pth))))) 1)"
  unfolding computePathRevenue_def Let_def enemyTerritory_count ..

lemma isEnemyHex_iff:
  "isEnemyHex grid pid hex =
     (case find (\<lambda>c. q c = q hex \<and> r c = r hex) grid of
        None \<Rightarrow> False
      | Some c \<Rightarrow> \<exists>ow \<in> set (owners_of c). ownerId ow \<noteq> pid)"
  by (simp add: isEnemyHex_def list_ex_iff split: option.splits)

text \<open>
  Claim C1.  A path submission that passes every check of \<open>handlePath\<close> (the sender is
  joined, the phase is path\_phase, the named cells exist and are owned by the sender as
  producer and as seller, the path has at least two hexes, starts on the producer cell,
  ends on the seller cell, every step goes to a neighbour and no hex after the first is
  blocked) is stored for the sender with the revenue
  \<open>P.producer * max(0, min(S.seller - (N - 1) - 2 * enemyTerritory, 1))\<close>, where \<open>N\<close> is the
  number of hexes and \<open>enemyTerritory\<close> is the number of hexes strictly between the two
  ends at whose coordinates the grid has a cell (the first such cell) with at least one
  owner whose id is not the sender's; the same value is sent back.  With producer 9 and
  seller 9, a path of length 3 (four hexes) with no enemy territory earns 9, a path of
  length 9 (ten hexes) earns 0, and a path of length 7 (eight hexes) earns 9 with no enemy
  territory but 0 when one of its interior hexes is enemy territory.
\<close>

theorem path_revenue_stored:
  assumes "joinedAs s ws = Some pid" and "phaseIs s Path_phase"
    and "findCell prodId (st_grid s) = Some P" and "ownsAs pid Producer P"
    and "findCell sellId (st_grid s) = Some S" and "ownsAs pid Seller S"
    and "2 \<le> length pth"
    and "axialEquals (hd pth) \<lparr>q = q P, r = r P\<rparr>"
    and "axialEquals (last pth) \<lparr>q = q S, r = r S\<rparr>"
    and "checkPath (map (\<lambda>c. axialKey \<lparr>q = q c, r = r c\<rparr>) (filter blocked (st_grid s))) pth = None"
    and "enemyTerritory =
           int (length (filter
             (\<lambda>hex. case find (\<lambda>c. q c = q hex \<and> r c = r hex) (st_grid s) of
                      None \<Rightarrow> False
                    | Some c \<Rightarrow> \<exists>ow \<in> set (owners_of c). ownerId ow \<noteq> pid)
             (butlast (tl pth))))"
    and "v = producer P * max 0 (min (seller S - (int (length pth) - 1) - 2 * enemyTerritory) 1)"
  shows "map_of (st_paths (fst (handlePath e ws prodId sellId pth s))) pid
           = Some \<lparr>producerId = prodId, sellerId = sellId, path = pth, revenue = v\<rparr>
         \<and> SendTo ws (Path_revenue v) \<in> set (snd (handlePath e ws prodId sellId pth s))
         \<and> (producer P = 9 \<and> seller S = 9 \<and> length pth = 4 \<and> enemyTerritory = 0 \<longrightarrow> v = 9)
         \<and> (producer P = 9 \<and> seller S = 9 \<and> length pth = 10 \<and> enemyTerritory = 0 \<longrightarrow> v = 0)
         \<and> (producer P = 9 \<and> seller S = 9 \<and> length pth = 8 \<and> enemyTerritory = 0 \<longrightarrow> v = 9)
         \<and> (producer P = 9 \<and> seller S = 9 \<and> length pth = 8 \<and> enemyTerritory = 1 \<longrightarrow> v = 0)"
proof -
  have en: "filter (isEnemyHex (st_grid s) pid) (butlast (tl pth))
          = filter (\<lambda>hex. case find (\<lambda>c. q c = q hex \<and> r c = r hex) (st_grid s) of
                      None \<Rightarrow> False
                    | Some c \<Rightarrow> \<exists>ow \<in> set (owners_of c). ownerId ow \<noteq> pid)
              (butlast (tl pth))"
    by (rule filter_cong) (simp_all add: isEnemyHex_iff)
  have rev: "computePathRevenue (st_grid s) pid P S pth = v"
    using assms(11,12) by (simp add: computePathRevenue_formula en)
  have h: "handlePath e ws prodId sellId pth s =
        thenBroadcast e
          (s\<lparr>st_pending := (st_pending s)\<lparr>pathReady := removeAll pid (pathReady (st_pending s))\<rparr>,
             st_paths := recordPut pid
                 \<lparr>producerId = prodId, sellerId = sellId, path = pth, revenue = v\<rparr> (st_paths s)\<rparr>,
           [SendTo ws (Path_revenue v)])"
    using assms(1-10) by (simp add: handlePath_def rev Let_def)
  show ?thesis
    using assms(12) by (auto simp: h map_of_recordPut thenBroadcast_def broadcastState_def)
qed

theorem path_revenue_stored_witness:
  "joinedAs (exRoom Path_phase) 0 = Some ''P1''
   \<and> phaseIs (exRoom Path_phase) Path_phase
   \<and> findCell ''cell-0-0'' (st_grid (exRoom Path_phase)) = Some (exGrid ! 0)
   \<and> ownsAs ''P1'' Producer (exGrid ! 0)
   \<and> findCell ''cell-3-0'' (st_grid (exRoom Path_phase)) = Some (exGrid ! 3)
   \<and> ownsAs ''P1'' Seller (exGrid ! 3)
   \<and> producer (exGrid ! 0) = 9 \<and> seller (exGrid ! 3) = 9
   \<and> length exPath = 4
   \<and> filter (\<lambda>hex. case find (\<lambda>c. q c = q hex \<and> r c = r hex) exGrid of
                      None \<Rightarrow> False
                    | Some c \<Rightarrow> \<exists>ow \<in> set (owners_of c). ownerId ow \<noteq> ''P1'')
        (butlast (tl exPath)) = []
   \<and> map_of (st_paths (fst (handlePath exEnv 0 ''cell-0-0'' ''cell-3-0'' exPath (exRoom Path_phase)))) ''P1''
       = Some \<lparr>producerId = ''cell-0-0'', sellerId = ''cell-3-0'', path = exPath, revenue = 9\<rparr>
   \<and> SendTo 0 (Path_revenue 9)
       \<in> set (snd (handlePath exEnv 0 ''cell-0-0'' ''cell-3-0'' exPath (exRoom Path_phase)))
   \<and> length exDetour = 8
   \<and> filter (\<lambda>hex. case find (\<lambda>c. q c = q hex \<and> r c = r hex) exGrid of
                      None \<Rightarrow> False
                    | Some c \<Rightarrow> \<exists>ow \<in> set (owners_of c). ownerId ow \<noteq> ''P1'')
        (butlast (tl exDetour)) = [\<lparr>q = 0, r = 1\<rparr>]
   \<and> map owners_of (filter (\<lambda>c. q c = 0 \<and> r c = 1) exGrid) = [[exOwner ''P2'' Producer]]
   \<and> map_of (st_paths (fst (handlePath exEnv 0 ''cell-0-0'' ''cell-3-0'' exDetour (exRoom Path_phase)))) ''P1''
       = Some \<lparr>producerId = ''cell-0-0'', sellerId = ''cell-3-0'', path = exDetour, revenue = 0\<rparr>
   \<and> SendTo 0 (Path_revenue 0)
       \<in> set (snd (handlePath exEnv 0 ''cell-0-0'' ''cell-3-0'' exDetour (exRoom Path_phase)))"
proof -
  have 1: "joinedAs (exRoom Path_phase) 0 = Some ''P1''" by code_simp
  have 2: "phaseIs (exRoom Path_phase) Path_phase" by code_simp
  have 3: "findCell ''cell-0-0'' (st_grid (exRoom Path_phase)) = Some (exGrid ! 0)" by code_simp
  have 4: "ownsAs ''P1'' Producer (exGrid ! 0)" by code_simp
  have 5: "findCell ''cell-3-0'' (st_grid (exRoom Path_phase)) = Some (exGrid ! 3)" by code_simp
  have 6: "ownsAs ''P1'' Seller (exGrid ! 3)" by code_simp
  have 7: "2 \<le> length exPath" "2 \<le> length exDetour" by code_simp+
  have 8: "axialEquals (hd exPath) \<lparr>q = q (exGrid ! 0), r = r (exGrid ! 0)\<rparr>"
          "axialEquals (hd exDetour) \<lparr>q = q (exGrid ! 0), r = r (exGrid ! 0)\<rparr>" by code_simp+
  have 9: "axialEquals (last exPath) \<lparr>q = q (exGrid ! 3), r = r (exGrid ! 3)\<rparr>"
          "axialEquals (last exDetour) \<lparr>q = q (exGrid ! 3), r = r (exGrid ! 3)\<rparr>" by code_simp+
  have 10: "checkPath (map (\<lambda>c. axialKey \<lparr>q = q c, r = r c\<rparr>)
               (filter blocked (st_grid (exRoom Path_phase)))) exPath = None"
           "checkPath (map (\<lambda>c. axialKey \<lparr>q = q c, r = r c\<rparr>)
               (filter blocked (st_grid (exRoom Path_phase)))) exDetour = None" by code_simp+
  have g: "st_grid (exRoom Path_phase) = exGrid" by code_simp
  have e0: "filter (\<lambda>hex. case find (\<lambda>c. q c = q hex \<and> r c = r hex) exGrid of
                      None \<Rightarrow> False
                    | Some c \<Rightarrow> \<exists>ow \<in> set (owners_of c). ownerId ow \<noteq> ''P1'')
        (butlast (tl exPath)) = []" by code_simp
  have e1: "filter (\<lambda>hex. case find (\<lambda>c. q c = q hex \<and> r c = r hex) exGrid of
                      None \<Rightarrow> False
                    | Some c \<Rightarrow> \<exists>ow \<in> set (owners_of c). ownerId ow \<noteq> ''P1'')
        (butlast (tl exDetour)) = [\<lparr>q = 0, r = 1\<rparr>]" by code_simp
  have 11: "(0::int) = int (length (filter
             (\<lambda>hex. case find (\<lambda>c. q c = q hex \<and> r c = r hex) (st_grid (exRoom Path_phase)) of
                      None \<Rightarrow> False
                    | Some c \<Rightarrow> \<exists>ow \<in> set (owners_of c). ownerId ow \<noteq> ''P1'')
             (butlast (tl exPath))))"
           "(1::int) = int (length (filter
             (\<lambda>hex. case find (\<lambda>c. q c = q hex \<and> r c = r hex) (st_grid (exRoom Path_phase)) of
                      None \<Rightarrow> False
                    | Some c \<Rightarrow> \<exists>ow \<in> set (owners_of c). ownerId ow \<noteq> ''P1'')
             (butlast (tl exDetour))))"
    by (simp_all only: g e0 e1) simp_all
  have 12: "(9::int) = producer (exGrid ! 0)
        * max 0 (min (seller (exGrid ! 3) - (int (length exPath) - 1) - 2 * 0) 1)"
           "(0::int) = producer (exGrid ! 0)
        * max 0 (min (seller (exGrid ! 3) - (int (length exDetour) - 1) - 2 * 1) 1)" by code_simp+
  have 13: "producer (exGrid ! 0) = 9 \<and> seller (exGrid ! 3) = 9 \<and> length exPath = 4
          \<and> length exDetour = 8
          \<and> map owners_of (filter (\<lambda>c. q c = 0 \<and> r c = 1) exGrid) = [[exOwner ''P2'' Producer]]"
    by code_simp
  from path_revenue_stored[OF 1 2 3 4 5 6 7(1) 8(1) 9(1) 10(1) 11(1) 12(1), of exEnv]
       path_revenue_stored[OF 1 2 3 4 5 6 7(2) 8(2) 9(2) 10(2) 11(2) 12(2), of exEnv]
       1 2 3 4 5 6 13 e0 e1
  show ?thesis by simp
qed

section \<open>Ownership aging\<close>

lemma alarm_round_start_grid:
  "st_config s = Some config \<Longrightarrow> phase config = Round_start \<Longrightarrow>
     st_grid (fst (alarm e s)) = applyOwnershipAging (st_grid s)"
  by (simp add: alarm_def alarmRoundStart_def Let_def)

lemma ageCell_owners [simp]: "owners (ageCell c) = owners c"
  by (simp add: ageCell_def)

lemma ageCell_owners_of [simp]: "owners_of (ageCell c) = owners_of c"
  by (simp add: owners_of_def)

lemma ageCell_pow_owners [simp]: "owners ((ageCell ^^ n) c) = owners c"
  by (induction n) auto

lemma ageCell_pow_owners_of [simp]: "owners_of ((ageCell ^^ n) c) = owners_of c"
  by (simp add: owners_of_def)

lemma ageCell_owned:
  "owners_of d \<noteq> [] \<Longrightarrow>
     producer (ageCell d) = max 1 (producer d - 1) \<and> seller (ageCell d) = max 1 (seller d - 1)"
  by (simp add: ageCell_def)

lemma ageCell_pow_values:
  "owners_of c \<noteq> [] \<Longrightarrow> 1 \<le> producer c \<Longrightarrow> 1 \<le> seller c \<Longrightarrow>
     producer ((ageCell ^^ n) c) = max 1 (producer c - int n)
   \<and> seller ((ageCell ^^ n) c) = max 1 (seller c - int n)"
proof (induction n)
  case 0
  then show ?case by simp
next
  case (Suc n)
  then have "owners_of ((ageCell ^^ n) c) \<noteq> []" by simp
  from ageCell_owned[OF this] Suc show ?case by simp linarith
qed

lemma aging_pow_map: "(applyOwnershipAging ^^ n) grid = map (ageCell ^^ n) grid"
proof (induction n)
  case 0
  show ?case by simp
next
  case (Suc n)
  then show ?case by (simp add: applyOwnershipAging_def)
qed

text \<open>
  Claim C6.  When \<open>alarm\<close> resolves round\_start, the grid keeps its cells in place; every
  cell keeps its owners; a cell with no owner is unchanged; a cell with an owner has its
  producer value and its seller value each replaced by \<open>max 1 (value - 1)\<close> and nothing
  else changed.  Applying the aging \<open>n\<close> times to an owned cell whose values start at 1
  or more leaves \<open>max 1 (value - n)\<close> in both fields and the owners as they were: a cell
  with producer 5 and seller 5 reads 1 and 1 after ten rounds.
\<close>

theorem ownership_aging_round_start:
  assumes "st_config s = Some config" and "phase config = Round_start"
    and "i < length (st_grid s)"
    and "c = st_grid s ! i" and "c' = st_grid (fst (alarm e s)) ! i"
  shows "length (st_grid (fst (alarm e s))) = length (st_grid s)
       \<and> owners c' = owners c
       \<and> (owners_of c = [] \<longrightarrow> c' = c)
       \<and> (owners_of c \<noteq> [] \<longrightarrow>
            c' = c\<lparr>producer := max 1 (producer c - 1), seller := max 1 (seller c - 1)\<rparr>)
       \<and> (owners_of c \<noteq> [] \<and> 1 \<le> producer c \<and> 1 \<le> seller c \<longrightarrow>
            producer (((applyOwnershipAging ^^ n) (st_grid s)) ! i) = max 1 (producer c - int n)
          \<and> seller (((applyOwnershipAging ^^ n) (st_grid s)) ! i) = max 1 (seller c - int n)
          \<and> owners (((applyOwnershipAging ^^ n) (st_grid s)) ! i) = owners c)"
proof -
  have g: "st_grid (fst (alarm e s)) = map ageCell (st_grid s)"
    using assms(1,2) by (simp add: alarm_round_start_grid applyOwnershipAging_def)
  have c': "c' = ageCell c"
    using assms(3,4,5) by (simp add: g)
  have 1: "length (st_grid (fst (alarm e s))) = length (st_grid s)"
    by (simp add: g)
  have 2: "owners c' = owners c" by (simp add: c')
  have 3: "owners_of c = [] \<longrightarrow> c' = c" by (simp add: c' ageCell_def)
  have 4: "owners_of c \<noteq> [] \<longrightarrow>
            c' = c\<lparr>producer := max 1 (producer c - 1), seller := max 1 (seller c - 1)\<rparr>"
    by (simp add: c' ageCell_def)
  have n: "((applyOwnershipAging ^^ n) (st_grid s)) ! i = (ageCell ^^ n) c"
    using assms(3,4) by (simp add: aging_pow_map)
  have 5: "owners_of c \<noteq> [] \<and> 1 \<le> producer c \<and> 1 \<le> seller c \<longrightarrow>
            producer (((applyOwnershipAging ^^ n) (st_grid s)) ! i) = max 1 (producer c - int n)
          \<and> seller (((applyOwnershipAging ^^ n) (st_grid s)) ! i) = max 1 (seller c - int n)
          \<and> owners (((applyOwnershipAging ^^ n) (st_grid s)) ! i) = owners c"
    using ageCell_pow_values[of c n] by (simp add: n)
  from 1 2 3 4 5 show ?thesis by blast
qed

theorem ownership_aging_round_start_witness:
  "st_config (exRoom Round_start) = Some (exConfig Round_start)
   \<and> phase (exConfig Round_start) = Round_start
   \<and> 5 < length (st_grid (exRoom Round_start))
   \<and> producer (st_grid (exRoom Round_start) ! 5) = 5
   \<and> seller (st_grid (exRoom Round_start) ! 5) = 5
   \<and> owners (st_grid (exRoom Round_start) ! 5) = Some [exOwner ''P2'' Producer]
   \<and> producer (st_grid (fst (alarm exEnv (exRoom Round_start))) ! 5) = 4
   \<and> seller (st_grid (fst (alarm exEnv (exRoom Round_start))) ! 5) = 4
   \<and> owners (st_grid (fst (alarm exEnv (exRoom Round_start))) ! 5) = Some [exOwner ''P2'' Producer]
   \<and> st_grid (fst (alarm exEnv (exRoom Round_start))) ! 1 = st_grid (exRoom Round_start) ! 1
   \<and> producer (((applyOwnershipAging ^^ 10) (st_grid (exRoom Round_start))) ! 5) = 1
   \<and> seller (((applyOwnershipAging ^^ 10) (st_grid (exRoom Round_start))) ! 5) = 1
   \<and> owners (((applyOwnershipAging ^^ 10) (st_grid (exRoom Round_start))) ! 5)
       = Some [exOwner ''P2'' Producer]"
proof -
  have 1: "st_config (exRoom Round_start) = Some (exConfig Round_start)" by code_simp
  have 2: "phase (exConfig Round_start) = Round_start" by code_simp
  have 3: "5 < length (st_grid (exRoom Round_start))" by code_simp
  have 4: "1 < length (st_grid (exRoom Round_start))" by code_simp
  have v: "producer (st_grid (exRoom Round_start) ! 5) = 5
         \<and> seller (st_grid (exRoom Round_start) ! 5) = 5
         \<and> owners (st_grid (exRoom Round_start) ! 5) = Some [exOwner ''P2'' Producer]
         \<and> owners_of (st_grid (exRoom Round_start) ! 5) \<noteq> []
         \<and> owners_of (st_grid (exRoom Round_start) ! 1) = []" by code_simp
  from ownership_aging_round_start[OF 1 2 3 refl refl, of exEnv 10]
       ownership_aging_round_start[OF 1 2 4 refl refl, of exEnv 0] 1 2 3 v
  show ?thesis by simp
qed


section \<open>Players in good standing: an invariant of every reachable state\<close>


lemma updateFirst_all:
  "list_all Q xs \<Longrightarrow> (\<And>x. Q x \<Longrightarrow> P x \<Longrightarrow> Q (f x)) \<Longrightarrow> list_all Q (updateFirst P f xs)"
  by (induction xs) auto

lemma updateFirst_find_all:
  "find P xs = Some x \<Longrightarrow> list_all Q xs \<Longrightarrow> Q (f x) \<Longrightarrow> list_all Q (updateFirst P f xs)"
  by (induction xs) (auto split: if_splits)

lemma fold_invariant:
  "I st \<Longrightarrow> (\<And>x st. I st \<Longrightarrow> I (step x st)) \<Longrightarrow> I (fold step xs st)"
  by (induction xs arbitrary: st) auto

lemma ok_broadcast: "list_all playerOk (st_players s) \<Longrightarrow> broadcastState e s = (s, [StateBroadcast])"
  by (simp add: broadcastState_def playerOk_def list_ex_iff list_all_iff)

lemma ok_thenBroadcast:
  "list_all playerOk (st_players s) \<Longrightarrow> thenBroadcast e (s, out) = (s, out @ [StateBroadcast])"
  by (simp add: thenBroadcast_def ok_broadcast)

lemma ensure_ok:
  "list_all (\<lambda>c. c \<noteq> []) cs \<Longrightarrow> list_all (\<lambda>p. 0 \<le> money p) ps
     \<Longrightarrow> list_all playerOk (ensurePlayerColors cs ps)"
proof (induction ps arbitrary: cs)
  case Nil
  then show ?case by simp
next
  case (Cons p ps)
  have t: "list_all (\<lambda>c. c \<noteq> []) (tl cs)"
    using Cons.prems(1) by (cases cs) auto
  have d: "distinctPlayerColor cs \<noteq> []"
    using Cons.prems(1) by (cases cs) (auto simp: distinctPlayerColor_def)
  show ?case
    using Cons.IH[OF t] Cons.IH[OF Cons.prems(1)] Cons.prems d
    by (auto simp: playerOk_def)
qed

lemma ok_money: "list_all playerOk ps \<Longrightarrow> list_all (\<lambda>p. 0 \<le> money p) ps"
  by (simp add: list_all_iff) (simp add: playerOk_def)

lemma payPaths_ok:
  assumes "list_all playerOk ps"
  shows "list_all playerOk (payPaths paths ps)"
  unfolding payPaths_def
proof (rule fold_invariant[where I = "list_all playerOk"])
  show "list_all playerOk ps" by (rule assms)
next
  fix ent :: "string \<times> submittedPath" and st :: "player list"
  assume "list_all playerOk st"
  then show "list_all playerOk (updateFirst (\<lambda>p. playerId p = fst ent)
               (\<lambda>p. p\<lparr>money := money p + max 0 (revenue (snd ent))\<rparr>) st)"
    by (rule updateFirst_all) (simp add: playerOk_def)
qed

lemma alarmRoundStart_ok:
  "list_all playerOk (st_players s) \<Longrightarrow> list_all playerOk (st_players (fst (alarmRoundStart e config s)))"
proof -
  assume a: "list_all playerOk (st_players s)"
  have "list_all playerOk (map (\<lambda>p. p\<lparr>money := money p + 1\<rparr>) (st_players s))"
    using a by (simp add: list_all_iff playerOk_def)
  then have "list_all playerOk (payPaths (st_paths s) (map (\<lambda>p. p\<lparr>money := money p + 1\<rparr>) (st_players s)))"
    by (rule payPaths_ok)
  then show ?thesis
    by (simp add: alarmRoundStart_def Let_def ok_broadcast)
qed

lemma find_in_set: "find P xs = Some x \<Longrightarrow> x \<in> set xs"
  by (induction xs) (auto split: if_splits)

lemma marketStep_ok:
  assumes "list_all playerOk (fst st)"
  shows "list_all playerOk (fst (marketStep t grp st))"
proof -
  obtain ps md confl where st: "st = (ps, md, confl)" by (metis prod_cases3)
  have ok: "list_all playerOk ps" using assms st by simp
  have upd: "list_all playerOk (updateFirst (\<lambda>p. playerId p = w)
                 (\<lambda>p. p\<lparr>money := money p - b, dice := dice p @ [d]\<rparr>) ps)"
    if "findPlayer w ps = Some pl" and "b \<le> money pl" for w pl b d
  proof (rule updateFirst_find_all[OF that(1)[unfolded findPlayer_def] ok])
    have "playerOk pl" using find_in_set[OF that(1)[unfolded findPlayer_def]] ok
      by (simp add: list_all_iff)
    then show "playerOk (pl\<lparr>money := money pl - b, dice := dice pl @ [d]\<rparr>)"
      using that(2) by (simp add: playerOk_def)
  qed
  show ?thesis
    using ok upd by (auto simp: st marketStep_def Let_def split: option.splits)
qed

lemma resolveMarket_ok:
  "list_all playerOk ps \<Longrightarrow> list_all playerOk (fst (resolveMarket t mp entries ps md))"
  unfolding resolveMarket_def
  by (rule fold_invariant) (auto intro: marketStep_ok)

lemma alarmMarketPhase_ok:
  "list_all playerOk (st_players s) \<Longrightarrow> list_all playerOk (st_players (fst (alarmMarketPhase e config s)))"
proof -
  assume a: "list_all playerOk (st_players s)"
  obtain ps md confl where r: "resolveMarket (now e)
        (case marketMinPrice config of None \<Rightarrow> MARKET_MIN_PRICE | Some m \<Rightarrow> m)
        (market (st_pending s)) (st_players s)
        (case marketDice config of None \<Rightarrow> [] | Some d \<Rightarrow> d) = (ps, md, confl)"
    by (metis prod_cases3)
  have "list_all playerOk ps"
    using resolveMarket_ok[OF a, of "now e" _ "market (st_pending s)"] r
    by (metis fst_conv)
  then show ?thesis
    by (simp add: alarmMarketPhase_def Let_def r ok_broadcast)
qed

lemma dealHands_ok: "list_all playerOk ps \<Longrightarrow> list_all playerOk (dealHands draws ps)"
  by (auto simp: dealHands_def list_all_iff playerOk_def in_set_enumerate_eq)

lemma alarmPathPhase_ok:
  "list_all playerOk (st_players s) \<Longrightarrow> list_all playerOk (st_players (fst (alarmPathPhase e config s)))"
  by (simp add: alarmPathPhase_eq dealHands_ok)

lemma enterPathPhase_ok:
  assumes "list_all playerOk (st_players s)"
  shows "list_all playerOk (st_players (fst (enterPathPhase e config s)))"
  using assms by (simp add: enterPathPhase_eq Let_def dealHands_ok)

lemma commitBuy_ok:
  "list_all playerOk (snd st) \<Longrightarrow> list_all playerOk (snd (commitBuy act st))"
  by (cases st) (auto simp: commitBuy_def playerOk_def intro!: updateFirst_all split: option.splits)

lemma alarmBuyPhase_ok:
  assumes "list_all playerOk (st_players s)"
  shows "list_all playerOk (st_players (fst (alarmBuyPhase e config s)))"
proof -
  obtain g ps where f: "fold commitBuy (buyFiltered (now e) s) (st_grid s, st_players s) = (g, ps)"
    by (metis surj_pair)
  have "list_all playerOk (snd (fold commitBuy (buyFiltered (now e) s) (st_grid s, st_players s)))"
    by (rule fold_invariant[where I = "\<lambda>st. list_all playerOk (snd st)"])
       (simp_all add: assms commitBuy_ok)
  then have ps: "list_all playerOk ps" by (simp add: f)
  show ?thesis
    using ps by (simp add: alarmBuyPhase_def Let_def f ok_broadcast enterPathPhase_ok)
qed

lemma auctionBest_nonneg: "0 \<le> auctionBest bids pids"
proof -
  have "0 \<le> b \<Longrightarrow> 0 \<le> fold (\<lambda>pid best. if bidOf bids pid > best then bidOf bids pid else best) pids b"
    for b
    by (induction pids arbitrary: b) auto
  then show ?thesis by (simp add: auctionBest_def)
qed

lemma find_ok:
  "findPlayer w ps = Some pl \<Longrightarrow> list_all playerOk ps \<Longrightarrow> playerOk pl"
  using find_in_set[of "\<lambda>p. playerId p = w" ps pl] by (simp add: findPlayer_def list_all_iff)

lemma resolveMarketConflict_ok:
  assumes "list_all playerOk (fst st)"
  shows "list_all playerOk (fst (resolveMarketConflict bids dieIx pids st))"
proof -
  obtain ps md where st: "st = (ps, md)" by (metis surj_pair)
  have ok: "list_all playerOk ps" using assms st by simp
  have upd: "list_all playerOk (updateFirst (\<lambda>p. playerId p = w)
                 (\<lambda>p. p\<lparr>dice := dice p @ [d], money := money p - b\<rparr>) ps)"
    if "findPlayer w ps = Some pl" and "b \<le> money pl" for w pl b d
  proof (rule updateFirst_find_all[OF that(1)[unfolded findPlayer_def] ok])
    show "playerOk (pl\<lparr>dice := dice pl @ [d], money := money pl - b\<rparr>)"
      using find_ok[OF that(1) ok] that(2) by (simp add: playerOk_def)
  qed
  show ?thesis
    using ok upd by (auto simp: st resolveMarketConflict_def Let_def split: option.splits)
qed

lemma cellWinnerStep_ok:
  assumes "list_all playerOk (snd st)"
  shows "list_all playerOk (snd (cellWinnerStep buys cid dv bestBid pid st))"
proof -
  obtain os ps where st: "st = (os, ps)" by (metis surj_pair)
  have ok: "list_all playerOk ps" using assms st by simp
  have upd: "list_all playerOk (updateFirst (\<lambda>p. playerId p = pid)
                 (\<lambda>p. p\<lparr>money := money p - bestBid, dice := remove1 dv (dice p)\<rparr>) ps)"
    if "findPlayer pid ps = Some pl" and "\<not> money pl < bestBid" for pl
  proof (rule updateFirst_find_all[OF that(1)[unfolded findPlayer_def] ok])
    show "playerOk (pl\<lparr>money := money pl - bestBid, dice := remove1 dv (dice pl)\<rparr>)"
      using find_ok[OF that(1) ok] that(2) by (simp add: playerOk_def)
  qed
  show ?thesis
    using ok upd by (auto simp: st cellWinnerStep_def split: option.splits)
qed

lemma resolveCellConflict_ok:
  assumes "list_all playerOk (snd st)"
  shows "list_all playerOk (snd (resolveCellConflict buys bids cid pids st))"
proof -
  obtain g ps where st: "st = (g, ps)" by (metis surj_pair)
  have ok: "list_all playerOk ps" using assms st by simp
  have "list_all playerOk (snd (fold (cellWinnerStep buys cid dv b) ws (os, ps)))" for dv b ws os
    by (rule fold_invariant[where I = "\<lambda>st. list_all playerOk (snd st)"])
       (simp_all add: ok cellWinnerStep_ok)
  then show ?thesis
    using ok by (auto simp: st resolveCellConflict_def Let_def split: option.splits prod.splits)
        (metis snd_conv)
qed

lemma resolveConflict_ok:
  assumes "list_all playerOk (fst (snd st))"
  shows "list_all playerOk (fst (snd (resolveConflict pending c st)))"
proof -
  obtain g ps md where st: "st = (g, ps, md)" by (metis prod_cases3)
  have ok: "list_all playerOk ps" using assms st by simp
  show ?thesis
  proof (cases c)
    case (CellConflict cfid cid pids)
    then show ?thesis
      using resolveCellConflict_ok[of "(g, ps)" "buy pending" _ cid pids] ok
      by (auto simp: st resolveConflict_def Let_def split: prod.splits) (metis snd_conv)
  next
    case (MarketConflict cfid dieIx pids)
    then show ?thesis
      using resolveMarketConflict_ok[of "(ps, md)" _ dieIx pids] ok
      by (auto simp: st resolveConflict_def Let_def split: prod.splits)
  qed
qed

lemma alarmAuction_ok:
  assumes "list_all playerOk (st_players s)"
  shows "list_all playerOk (st_players (fst (alarmAuction e config s)))"
proof -
  let ?md0 = "case marketDice config of None \<Rightarrow> [] | Some d \<Rightarrow> d"
  obtain g ps md where f: "fold (resolveConflict (st_pending s)) (conflicts (st_pending s))
                              (st_grid s, st_players s, ?md0) = (g, ps, md)"
    by (metis prod_cases3)
  have "list_all playerOk (fst (snd (fold (resolveConflict (st_pending s)) (conflicts (st_pending s))
                              (st_grid s, st_players s, ?md0))))"
    by (rule fold_invariant[where I = "\<lambda>st. list_all playerOk (fst (snd st))"])
       (simp_all add: assms resolveConflict_ok)
  then have ps: "list_all playerOk ps" by (simp add: f)
  show ?thesis
    using ps by (simp add: alarmAuction_def Let_def f enterPathPhase_ok)
qed

lemma alarmRoundEnd_ok:
  "list_all playerOk (st_players s) \<Longrightarrow> list_all playerOk (st_players (fst (alarmRoundEnd e config s)))"
  by (simp add: alarmRoundEnd_def Let_def ok_broadcast andThen_def setAlarm_def
        split: option.splits)

lemma alarm_ok:
  "list_all playerOk (st_players s) \<Longrightarrow> list_all playerOk (st_players (fst (alarm e s)))"
  by (simp add: alarm_def cleanupRoom_def alarmRoundStart_ok alarmMarketPhase_ok alarmBuyPhase_ok
        alarmAuction_ok alarmPathPhase_ok alarmRoundEnd_ok split: option.splits gamePhase.splits)

lemma distinctPlayerColor_ok: "list_all (\<lambda>c. c \<noteq> []) cs \<Longrightarrow> distinctPlayerColor cs \<noteq> []"
  by (cases cs) (auto simp: distinctPlayerColor_def)

lemma handleJoin_ok:
  assumes "list_all playerOk (st_players s)" and "envOk e"
  shows "list_all playerOk (st_players (fst (handleJoin e ws nm s)))"
proof -
  have c: "list_all (\<lambda>c. c \<noteq> []) (colorSupply e)" using assms(2) by (simp add: envOk_def)
  have 1: "list_all playerOk (ensurePlayerColors (colorSupply e) (st_players s))"
    by (rule ensure_ok[OF c ok_money[OF assms(1)]])
  have "list_all (\<lambda>c. c \<noteq> []) (drop k (colorSupply e))" for k
    using c by (auto simp: list_all_iff dest: in_set_dropD)
  then have 2: "distinctPlayerColor (drop k (colorSupply e)) \<noteq> []" for k
    by (rule distinctPlayerColor_ok)
  show ?thesis
    using assms(1) 1 2 by (simp add: handleJoin_def Let_def ok_thenBroadcast playerOk_def)
qed

lemma handleRejoin_ok:
  "list_all playerOk (st_players s) \<Longrightarrow> envOk e
     \<Longrightarrow> list_all playerOk (st_players (fst (handleRejoin e ws pid nm s)))"
  by (simp add: handleRejoin_def ok_thenBroadcast handleJoin_ok)

lemma handleStartGame_ok:
  assumes "list_all playerOk (st_players s)" and "envOk e"
  shows "list_all playerOk (st_players (fst (handleStartGame e ws s)))"
proof -
  have c: "list_all (\<lambda>c. c \<noteq> []) (colorSupply e)" using assms(2) by (simp add: envOk_def)
  have 1: "list_all playerOk (ensurePlayerColors (colorSupply e) (st_players s))"
    by (rule ensure_ok[OF c ok_money[OF assms(1)]])
  have 2: "list_all playerOk (map (\<lambda>kp. (snd kp)\<lparr>money := STARTING_MONEY, dice := f kp\<rparr>)
              (enumerate 0 (ensurePlayerColors (colorSupply e) (st_players s))))" for f
    using 1 by (auto simp: list_all_iff playerOk_def STARTING_MONEY_def in_set_enumerate_eq)
  show ?thesis
    using assms(1) 2 by (simp add: handleStartGame_def Let_def ok_broadcast split: option.splits)
qed

lemma handleMarketBid_ok:
  "list_all playerOk (st_players s) \<Longrightarrow> list_all playerOk (st_players (fst (handleMarketBid e ws d a s)))"
  by (simp add: handleMarketBid_def notJoined_def Let_def ok_broadcast ok_thenBroadcast alarm_ok
        split: option.splits)

lemma handleMarketSkip_ok:
  "list_all playerOk (st_players s) \<Longrightarrow> list_all playerOk (st_players (fst (handleMarketSkip e ws s)))"
  by (simp add: handleMarketSkip_def notJoined_def Let_def ok_broadcast ok_thenBroadcast alarm_ok
        split: option.splits)

lemma handleMarketRecycle_ok:
  assumes "list_all playerOk (st_players s)"
  shows "list_all playerOk (st_players (fst (handleMarketRecycle e ws d s)))"
proof -
  have "list_all playerOk (updateFirst (\<lambda>p. playerId p = pid)
          (\<lambda>p. p\<lparr>dice := spliceOne (nat d) (dice p), money := money p + 3\<rparr>) (st_players s))" for pid
    using assms by (rule updateFirst_all) (simp add: playerOk_def)
  then show ?thesis
    using assms by (simp add: handleMarketRecycle_def ok_broadcast split: option.splits)
qed

lemma handleBuyCell_ok:
  "list_all playerOk (st_players s) \<Longrightarrow> list_all playerOk (st_players (fst (handleBuyCell e ws c rl s)))"
  by (simp add: handleBuyCell_def notJoined_def Let_def ok_broadcast ok_thenBroadcast
        split: option.splits)

lemma handleBuyCellCancel_ok:
  "list_all playerOk (st_players s) \<Longrightarrow> list_all playerOk (st_players (fst (handleBuyCellCancel e ws c s)))"
  by (simp add: handleBuyCellCancel_def notJoined_def Let_def ok_broadcast ok_thenBroadcast
        split: option.splits)

lemma handleBuyDone_ok:
  "list_all playerOk (st_players s) \<Longrightarrow> list_all playerOk (st_players (fst (handleBuyDone e ws s)))"
  by (simp add: handleBuyDone_def notJoined_def Let_def ok_broadcast ok_thenBroadcast alarm_ok
        split: option.splits)

lemma handleAuctionBid_ok:
  "list_all playerOk (st_players s) \<Longrightarrow> list_all playerOk (st_players (fst (handleAuctionBid e ws c a s)))"
  by (simp add: handleAuctionBid_def Let_def ok_broadcast split: option.splits)

lemma handlePath_ok:
  "list_all playerOk (st_players s) \<Longrightarrow> list_all playerOk (st_players (fst (handlePath e ws a b pth s)))"
  by (simp add: handlePath_def Let_def ok_thenBroadcast split: option.splits)

lemma handlePathDone_ok:
  "list_all playerOk (st_players s) \<Longrightarrow> list_all playerOk (st_players (fst (handlePathDone e ws s)))"
  by (simp add: handlePathDone_def notJoined_def Let_def ok_broadcast ok_thenBroadcast alarm_ok
        split: option.splits)

lemma tick_ok:
  assumes "list_all playerOk (st_players s)"
  shows "list_all playerOk (st_players (fst (andThen (maybeAdvanceTimedPhase e s) (broadcastState e))))"
proof (rule andThen_inv[where I = "\<lambda>s. list_all playerOk (st_players s)"])
  show "list_all playerOk (st_players (fst (maybeAdvanceTimedPhase e s)))"
    using assms by (simp add: maybeAdvanceTimedPhase_def alarm_ok split: option.splits)
next
  fix s' :: room
  assume "list_all playerOk (st_players s')"
  then show "list_all playerOk (st_players (fst (broadcastState e s')))"
    by (simp add: ok_broadcast)
qed

lemma webSocketMessage_ok:
  "list_all playerOk (st_players s) \<Longrightarrow> envOk e
     \<Longrightarrow> list_all playerOk (st_players (fst (webSocketMessage e ws msg s)))"
  by (cases msg)
     (simp_all add: webSocketMessage_def tick_ok handleJoin_ok handleRejoin_ok handleStartGame_ok
        handleBuyCell_ok handleBuyCellCancel_ok handleBuyDone_ok handleAuctionBid_ok handlePath_ok
        handlePathDone_ok handleMarketBid_ok handleMarketSkip_ok handleMarketRecycle_ok ok_broadcast)

lemma reachable_playersOk: "reachable s \<Longrightarrow> list_all playerOk (st_players s)"
proof (induction rule: reachable.induct)
  case reach_fresh
  show ?case by (simp add: emptyRoom_def)
next
  case (reach_init n)
  show ?case by (simp add: initialize_def)
next
  case (reach_message s e ws msg)
  then show ?case by (simp add: webSocketMessage_ok)
next
  case (reach_alarm s e)
  then show ?case by (simp add: alarm_ok)
next
  case (reach_close s e)
  then show ?case by (simp add: webSocketClose_def ok_broadcast)
qed


section \<open>The example run\<close>

lemma exEnv_ok: "envOk exEnv \<and> envOk exStartEnv \<and> envOk (exJoinEnv ''aaaa1111'' ''#e11d48'') \<and> envOk (exJoinEnv ''bbbb2222'' ''#2563eb'')"
  by code_simp

lemma exLater_ok: "envOk (exLater t)"
  by (simp add: exLater_def envOk_def exEnv_def)

lemma exRun_reachable:
  "reachable exR0 \<and> reachable exR1 \<and> reachable exR2 \<and> reachable exR3 \<and> reachable exR4
   \<and> reachable exR5 \<and> reachable exR6"
proof -
  have 0: "reachable exR0" unfolding exR0_def by (rule reach_init)
  have 1: "reachable exR1" unfolding exR1_def using 0 exEnv_ok by (simp add: reach_message)
  have 2: "reachable exR2" unfolding exR2_def using 1 exEnv_ok by (simp add: reach_message)
  have 3: "reachable exR3" unfolding exR3_def using 2 exEnv_ok by (simp add: reach_message)
  have 4: "reachable exR4" unfolding exR4_def using 3 exLater_ok by (simp add: reach_message)
  have 5: "reachable exR5" unfolding exR5_def using 4 exEnv_ok by (simp add: reach_message)
  have 6: "reachable exR6" unfolding exR6_def using 5 exEnv_ok by (simp add: reach_message)
  from 0 1 2 3 4 5 6 show ?thesis by simp
qed


section \<open>Money is never negative\<close>



section \<open>Actions addressed to another phase\<close>

text \<open>
  Claim C8 as the code has it.  In a reachable state, an action of a joined player that is
  addressed to a phase other than the current one leaves the whole room state as it is.
  No error is sent to anybody: the handlers of market\_bid, market\_skip, buy\_cell,
  buy\_cell\_cancel, buy\_done and path\_done broadcast the unchanged state, and those of
  auction\_bid, path and market\_recycle return without sending anything.
\<close>

theorem wrong_phase_rejected:
  assumes "reachable s" and "requiredPhase msg = Some ph" and "\<not> phaseIs s ph"
    and "joinedAs s ws = Some pid"
  shows "fst (webSocketMessage e ws msg s) = s
       \<and> snd (webSocketMessage e ws msg s)
           = (case msg of Auction_bid _ _ \<Rightarrow> [] | Path _ _ _ \<Rightarrow> [] | Market_recycle _ \<Rightarrow> []
              | _ \<Rightarrow> [StateBroadcast])"
  using assms(2-4) reachable_playersOk[OF assms(1)]
  by (cases msg)
     (auto simp: webSocketMessage_def requiredPhase_def handleMarketBid_def handleMarketSkip_def
        handleMarketRecycle_def handleBuyCell_def handleBuyCellCancel_def handleBuyDone_def
        handleAuctionBid_def handlePath_def handlePathDone_def ok_broadcast phaseIs_def
        catchIgnore_def split: option.splits)

theorem wrong_phase_rejected_witness:
  "reachable exR4 \<and> requiredPhase (Buy_cell ''cell--1-0'' Producer) = Some Buy_phase
   \<and> \<not> phaseIs exR4 Buy_phase \<and> joinedAs exR4 0 = Some ''aaaa1111''
   \<and> fst (webSocketMessage exEnv 0 (Buy_cell ''cell--1-0'' Producer) exR4) = exR4
   \<and> snd (webSocketMessage exEnv 0 (Buy_cell ''cell--1-0'' Producer) exR4) = [StateBroadcast]"
proof -
  have r: "reachable exR4" using exRun_reachable by simp
  have q: "requiredPhase (Buy_cell ''cell--1-0'' Producer) = Some Buy_phase" by code_simp
  have n: "\<not> phaseIs exR4 Buy_phase" by code_simp
  have j: "joinedAs exR4 0 = Some ''aaaa1111''" by code_simp
  from wrong_phase_rejected[OF r q n j, of exEnv] r q n j show ?thesis by simp
qed

text \<open>
  The claim as stated asks for a descriptive error to the submitter.  In the market phase
  of the example run the first player, who holds a 3, asks to buy the cell that needs a 3:
  the only thing sent is the broadcast of the state.
\<close>

theorem wrong_phase_error_counterexample:
  "phaseIs exR4 Market_phase \<and> joinedAs exR4 0 = Some ''aaaa1111''
   \<and> snd (webSocketMessage exEnv 0 (Buy_cell ''cell--1-0'' Producer) exR4) = [StateBroadcast]
   \<and> (\<forall>m. SendTo 0 (ErrorMsg m)
            \<notin> set (snd (webSocketMessage exEnv 0 (Buy_cell ''cell--1-0'' Producer) exR4)))"
proof -
  have 1: "phaseIs exR4 Market_phase \<and> joinedAs exR4 0 = Some ''aaaa1111''" by code_simp
  have 2: "snd (webSocketMessage exEnv 0 (Buy_cell ''cell--1-0'' Producer) exR4) = [StateBroadcast]"
    by code_simp
  from 1 2 show ?thesis by simp
qed


section \<open>The payout at round\_start\<close>

lemma updateFirst_length [simp]: "length (updateFirst P f xs) = length xs"
  by (induction xs) auto



lemma ensure_money [simp]: "map money (ensurePlayerColors cs ps) = map money ps"
  by (induction ps arbitrary: cs) auto

lemma broadcast_money [simp]:
  "map money (st_players (fst (broadcastState e s))) = map money (st_players s)"
  by (simp add: broadcastState_def)

lemma broadcast_config [simp]: "st_config (fst (broadcastState e s)) = st_config s"
  by (simp add: broadcastState_def)

lemma thenBroadcast_paths' [simp]: "st_paths (fst (thenBroadcast e res)) = st_paths (fst res)"
  by (cases res) simp

lemma enterPathPhase_paths [simp]: "st_paths (fst (enterPathPhase e config s)) = st_paths s"
  by (simp add: enterPathPhase_eq Let_def)

lemma alarmRoundStart_paths [simp]: "st_paths (fst (alarmRoundStart e config s)) = st_paths s"
  by (simp add: alarmRoundStart_def Let_def)

lemma alarmMarketPhase_paths [simp]: "st_paths (fst (alarmMarketPhase e config s)) = st_paths s"
  by (simp add: alarmMarketPhase_def Let_def split: prod.splits)

lemma alarmBuyPhase_paths [simp]: "st_paths (fst (alarmBuyPhase e config s)) = st_paths s"
  by (simp add: alarmBuyPhase_def Let_def split: prod.splits)

lemma alarmAuction_paths [simp]: "st_paths (fst (alarmAuction e config s)) = st_paths s"
  by (simp add: alarmAuction_def Let_def split: prod.splits)

lemma alarmPathPhase_paths [simp]: "st_paths (fst (alarmPathPhase e config s)) = st_paths s"
  by (simp add: alarmPathPhase_eq)

lemma alarmRoundEnd_paths [simp]: "st_paths (fst (alarmRoundEnd e config s)) = st_paths s"
  by (simp add: alarmRoundEnd_def Let_def split: option.splits)












section \<open>The board invariant\<close>


lemma findCell_shape:
  "shape g' = shape g \<Longrightarrow>
     map_option blocked (findCell cid g') = map_option blocked (findCell cid g)"
proof (induction g arbitrary: g')
  case Nil
  then show ?case by (simp add: shape_def findCell_def)
next
  case (Cons c g)
  then obtain c' g'' where g': "g' = c' # g''" by (cases g') (auto simp: shape_def)
  with Cons.prems have h: "cell_id c' = cell_id c" "blocked c' = blocked c" "shape g'' = shape g"
    by (auto simp: shape_def)
  show ?case
    using Cons.IH[OF h(3)] h(1,2) by (simp add: g' findCell_def)
qed

lemma unblockedId_shape: "shape g' = shape g \<Longrightarrow> unblockedId g' cid = unblockedId g cid"
proof -
  assume "shape g' = shape g"
  from findCell_shape[OF this, of cid] show ?thesis
    by (cases "findCell cid g'"; cases "findCell cid g") (simp_all add: unblockedId_def)
qed

lemma conflictOk_shape:
  assumes "shape g' = shape g"
  shows "conflictOk g' cf = conflictOk g cf"
  by (cases cf) (simp_all add: conflictOk_def unblockedId_shape[OF assms])

lemma pendingOk_shape:
  assumes "shape g' = shape g"
  shows "pendingOk g' pend = pendingOk g pend"
  by (simp add: pendingOk_def list_all_iff unblockedId_shape[OF assms] conflictOk_shape[OF assms])

lemma pendingOk_empty [simp]: "pendingOk g (emptyPendingActions\<lparr>pathReady := x\<rparr>)"
  "pendingOk g emptyPendingActions"
  by (simp_all add: pendingOk_def emptyPendingActions_def)

lemma shape_updateFirst:
  "(\<And>x. cell_id (f x) = cell_id x \<and> blocked (f x) = blocked x) \<Longrightarrow>
     shape (updateFirst P f g) = shape g"
  by (induction g) (auto simp: shape_def)

lemma blockedFree_updateFirst:
  assumes "blockedFree g" and "unblockedId g cid"
    and "\<And>x. blocked (f x) = blocked x"
  shows "blockedFree (updateFirst (\<lambda>x. cell_id x = cid) f g)"
  using assms(1,2)
proof (induction g)
  case Nil
  then show ?case by (simp add: blockedFree_def)
next
  case (Cons c g)
  show ?case
  proof (cases "cell_id c = cid")
    case True
    then have "\<not> blocked c" using Cons.prems(2) by (simp add: unblockedId_def findCell_def)
    then show ?thesis using True Cons.prems(1) assms(3) by (simp add: blockedFree_def)
  next
    case False
    then have "unblockedId g cid" using Cons.prems(2) by (simp add: unblockedId_def findCell_def)
    then show ?thesis using False Cons.prems(1) Cons.IH by (simp add: blockedFree_def)
  qed
qed

lemma aging_shape [simp]: "shape (applyOwnershipAging g) = shape g"
  by (simp add: shape_def applyOwnershipAging_def ageCell_def comp_def)

lemma aging_blockedFree: "blockedFree g \<Longrightarrow> blockedFree (applyOwnershipAging g)"
  by (auto simp: blockedFree_def applyOwnershipAging_def list_all_iff ageCell_def owners_of_def)

lemma broadcast_pending [simp]: "st_pending (fst (broadcastState e s)) = st_pending s"
  by (simp add: broadcastState_def)

lemma broadcast_boardOk [simp]: "boardOk (fst (broadcastState e s)) = boardOk s"
  by (simp add: boardOk_def)

lemma thenBroadcast_boardOk [simp]: "boardOk (fst (thenBroadcast e res)) = boardOk (fst res)"
  by (cases res) (simp add: thenBroadcast_def split: prod.splits, simp add: broadcastState_def boardOk_def)

lemma boardOk_players [simp]: "boardOk (s\<lparr>st_players := ps\<rparr>) = boardOk s"
  by (simp add: boardOk_def)

lemma alarmRoundStart_board: "boardOk s \<Longrightarrow> boardOk (fst (alarmRoundStart e config s))"
  by (simp add: alarmRoundStart_def Let_def boardOk_def aging_blockedFree
        pendingOk_shape[OF aging_shape])

lemma fold_inv:
  "I st \<Longrightarrow> (\<And>x st. x \<in> set xs \<Longrightarrow> I st \<Longrightarrow> I (step x st)) \<Longrightarrow> I (fold step xs st)"
  by (induction xs arbitrary: st) auto

lemma marketStep_conflictOk:
  "list_all (conflictOk g) (snd (snd st)) \<Longrightarrow> list_all (conflictOk g) (snd (snd (marketStep t grp st)))"
  by (cases st) (auto simp: marketStep_def Let_def conflictOk_def split: option.splits)

lemma resolveMarket_conflictOk:
  "list_all (conflictOk g) (snd (snd (resolveMarket t mp entries ps md)))"
  unfolding resolveMarket_def
  by (rule fold_inv[where I = "\<lambda>st. list_all (conflictOk g) (snd (snd st))"])
     (simp_all add: marketStep_conflictOk)

lemma alarmMarketPhase_board:
  assumes "boardOk s"
  shows "boardOk (fst (alarmMarketPhase e config s))"
proof -
  obtain ps md confl where r: "resolveMarket (now e)
        (case marketMinPrice config of None \<Rightarrow> MARKET_MIN_PRICE | Some m \<Rightarrow> m)
        (market (st_pending s)) (st_players s)
        (case marketDice config of None \<Rightarrow> [] | Some d \<Rightarrow> d) = (ps, md, confl)"
    by (metis prod_cases3)
  have "list_all (conflictOk (st_grid s)) confl"
    using resolveMarket_conflictOk[of "st_grid s" "now e" _ "market (st_pending s)" "st_players s"] r
    by (metis snd_conv)
  then show ?thesis
    using assms
    by (simp add: alarmMarketPhase_def Let_def r boardOk_def pendingOk_def emptyPendingActions_def)
qed

lemma alarmPathPhase_board: "boardOk s \<Longrightarrow> boardOk (fst (alarmPathPhase e config s))"
  by (simp add: alarmPathPhase_eq boardOk_def)

lemma enterPathPhase_board:
  assumes "blockedFree (st_grid s)"
  shows "boardOk (fst (enterPathPhase e config s))"
  using assms by (simp add: enterPathPhase_eq Let_def boardOk_def)

lemma alarmRoundEnd_board: "boardOk s \<Longrightarrow> boardOk (fst (alarmRoundEnd e config s))"
  by (simp add: alarmRoundEnd_def Let_def boardOk_def split: option.splits)

subsection \<open>Buy phase\<close>

lemma update_keys_subset:
  "fst ` set (AList.update k v al) = insert k (fst ` set al)"
  by (induction al) auto

lemma collectAct_keys:
  assumes "\<forall>cid \<in> fst ` set (snd (snd st)). Q cid" and "Q (cellId act)"
  shows "\<forall>cid \<in> fst ` set (snd (snd (collectAct pid act st))). Q cid"
proof -
  obtain seen roles byCell where st: "st = (seen, roles, byCell)" by (metis prod_cases3)
  have "\<forall>cid \<in> fst ` set (AList.update (cellId act) v byCell). Q cid" for v
    unfolding update_keys_subset using assms st by simp
  then show ?thesis
    using assms(1) by (simp add: collectAct_def Let_def st)
qed

lemma collectPlayer_keys:
  assumes "\<forall>cid \<in> fst ` set (snd st). Q cid" and "\<forall>a \<in> set (snd ent). Q (cellId a)"
  shows "\<forall>cid \<in> fst ` set (snd (collectPlayer ent st)). Q cid"
proof -
  obtain roles byCell where st: "st = (roles, byCell)" by (metis surj_pair)
  have "\<forall>cid \<in> fst ` set (snd (snd (fold (collectAct (fst ent)) (snd ent) ([], roles, byCell)))). Q cid"
  proof (rule fold_inv[where I = "\<lambda>st. \<forall>cid \<in> fst ` set (snd (snd st)). Q cid"])
    show "\<forall>cid\<in>fst ` set (snd (snd ([], roles, byCell))). Q cid"
      using assms(1) st by simp
  next
    fix x :: buyAction and st' :: "string list \<times> (string \<times> role) list \<times> (string \<times> string list) list"
    assume "x \<in> set (snd ent)" and "\<forall>cid\<in>fst ` set (snd (snd st')). Q cid"
    then show "\<forall>cid\<in>fst ` set (snd (snd (collectAct (fst ent) x st'))). Q cid"
      using assms(2) by (intro collectAct_keys) blast+
  qed
  then show ?thesis by (simp add: collectPlayer_def st)
qed

lemma collectBuys_keys:
  assumes "\<forall>ent \<in> set entries. \<forall>a \<in> set (snd ent). Q (cellId a)"
  shows "\<forall>cid \<in> fst ` set (snd (collectBuys entries)). Q cid"
  unfolding collectBuys_def
proof (rule fold_inv[where I = "\<lambda>st. \<forall>cid \<in> fst ` set (snd st). Q cid"])
  show "\<forall>cid\<in>fst ` set (snd ([], [])). Q cid" by simp
next
  fix x :: "string \<times> buyAction list" and st :: "(string \<times> role) list \<times> (string \<times> string list) list"
  assume "x \<in> set entries" and "\<forall>cid\<in>fst ` set (snd st). Q cid"
  then show "\<forall>cid\<in>fst ` set (snd (collectPlayer x st)). Q cid"
    using assms by (intro collectPlayer_keys) blast+
qed

lemma classifyCell_inv:
  assumes "(\<forall>act \<in> set (fst st). unblockedId g (fst (snd act))) \<and> list_all (conflictOk g) (snd st)"
    and "unblockedId g (fst ent)"
  shows "(\<forall>act \<in> set (fst (classifyCell t g ps roles ent st)). unblockedId g (fst (snd act)))
       \<and> list_all (conflictOk g) (snd (classifyCell t g ps roles ent st))"
  using assms
  by (cases st) (auto simp: classifyCell_def Let_def conflictOk_def split: option.splits)

lemma buyToApply_inv:
  assumes "pendingOk (st_grid s) (st_pending s)"
  shows "(\<forall>act \<in> set (fst (buyToApply t s)). unblockedId (st_grid s) (fst (snd act)))
       \<and> list_all (conflictOk (st_grid s)) (snd (buyToApply t s))"
proof -
  obtain roles byCell where c: "collectBuys (buy (st_pending s)) = (roles, byCell)"
    by (metis surj_pair)
  have "\<forall>ent \<in> set (buy (st_pending s)). \<forall>a \<in> set (snd ent). unblockedId (st_grid s) (cellId a)"
    using assms by (simp add: pendingOk_def list_all_iff)
  from collectBuys_keys[where Q = "unblockedId (st_grid s)", OF this]
  have keys: "\<forall>ent \<in> set byCell. unblockedId (st_grid s) (fst ent)" by (simp add: c)
  have "(\<forall>act \<in> set (fst (fold (classifyCell t (st_grid s) (st_players s) roles) byCell ([], []))).
            unblockedId (st_grid s) (fst (snd act)))
       \<and> list_all (conflictOk (st_grid s))
            (snd (fold (classifyCell t (st_grid s) (st_players s) roles) byCell ([], [])))"
  proof (rule fold_inv[where I = "\<lambda>st. (\<forall>act \<in> set (fst st). unblockedId (st_grid s) (fst (snd act)))
                                   \<and> list_all (conflictOk (st_grid s)) (snd st)"])
    show "(\<forall>act\<in>set (fst ([], [])). unblockedId (st_grid s) (fst (snd act)))
            \<and> list_all (conflictOk (st_grid s)) (snd ([], []))" by simp
  next
    fix x :: "string \<times> string list" and st :: "(string \<times> string \<times> role) list \<times> conflict list"
    assume "x \<in> set byCell"
      and "(\<forall>act\<in>set (fst st). unblockedId (st_grid s) (fst (snd act)))
            \<and> list_all (conflictOk (st_grid s)) (snd st)"
    then show "(\<forall>act\<in>set (fst (classifyCell t (st_grid s) (st_players s) roles x st)).
                 unblockedId (st_grid s) (fst (snd act)))
            \<and> list_all (conflictOk (st_grid s)) (snd (classifyCell t (st_grid s) (st_players s) roles x st))"
      using keys by (intro classifyCell_inv) simp_all
  qed
  then show ?thesis by (simp add: buyToApply_def c)
qed

lemma poolStep_subset:
  "set (snd (poolStep g act st)) \<subseteq> insert act (set (snd st))"
  by (cases st) (auto simp: poolStep_def split: option.splits)

lemma filterToApply_subset: "set (filterToApply g ps xs) \<subseteq> set xs"
proof -
  have "set (snd (fold (poolStep g) xs st)) \<subseteq> set (snd st) \<union> set xs" for st
  proof (induction xs arbitrary: st)
    case Nil
    show ?case by simp
  next
    case (Cons x xs)
    show ?case using Cons.IH[of "poolStep g x st"] poolStep_subset[of g x st] by auto
  qed
  from this[of "(playerDicePool ps, [])"] show ?thesis by (simp add: filterToApply_def)
qed

lemma commitBuy_board:
  assumes "blockedFree g" and "unblockedId g (fst (snd act))"
  shows "blockedFree (fst (commitBuy act (g, ps))) \<and> shape (fst (commitBuy act (g, ps))) = shape g"
proof (cases "findCell (fst (snd act)) g")
  case None
  then show ?thesis using assms by (simp add: commitBuy_def)
next
  case (Some c)
  have 1: "blockedFree (updateFirst (\<lambda>x. cell_id x = fst (snd act))
             (\<lambda>x. x\<lparr>owners := Some (pushOwner (fst act) (snd (snd act)) (owners_of x))\<rparr>) g)"
    by (rule blockedFree_updateFirst[OF assms]) simp
  have 2: "shape (updateFirst (\<lambda>x. cell_id x = fst (snd act))
             (\<lambda>x. x\<lparr>owners := Some (pushOwner (fst act) (snd (snd act)) (owners_of x))\<rparr>) g) = shape g"
    by (rule shape_updateFirst) simp
  show ?thesis using 1 2 Some by (simp add: commitBuy_def)
qed

lemma fold_commitBuy_board:
  assumes "blockedFree g" and "\<forall>act \<in> set acts. unblockedId g (fst (snd act))"
  shows "blockedFree (fst (fold commitBuy acts (g, ps)))
       \<and> shape (fst (fold commitBuy acts (g, ps))) = shape g"
  using assms
proof (induction acts arbitrary: g ps)
  case Nil
  then show ?case by simp
next
  case (Cons act acts)
  obtain g' ps' where c: "commitBuy act (g, ps) = (g', ps')" by (metis surj_pair)
  have 1: "blockedFree g'" "shape g' = shape g"
    using commitBuy_board[of g act ps] Cons.prems by (simp_all add: c)
  have 2: "\<forall>a \<in> set acts. unblockedId g' (fst (snd a))"
    using Cons.prems(2) by (simp add: unblockedId_shape[OF 1(2)])
  show ?case using Cons.IH[OF 1(1) 2, of ps'] 1(2) by (simp add: c)
qed

lemma alarmBuyPhase_board:
  assumes "boardOk s"
  shows "boardOk (fst (alarmBuyPhase e config s))"
proof -
  have bf: "blockedFree (st_grid s)" and po: "pendingOk (st_grid s) (st_pending s)"
    using assms by (simp_all add: boardOk_def)
  obtain g ps where f: "fold commitBuy (buyFiltered (now e) s) (st_grid s, st_players s) = (g, ps)"
    by (metis surj_pair)
  have acts: "\<forall>act \<in> set (buyFiltered (now e) s). unblockedId (st_grid s) (fst (snd act))"
  proof
    fix act assume "act \<in> set (buyFiltered (now e) s)"
    then have "act \<in> set (fst (buyToApply (now e) s))"
      using filterToApply_subset[of "st_grid s" "st_players s" "fst (buyToApply (now e) s)"]
      by (auto simp: buyFiltered_def)
    then show "unblockedId (st_grid s) (fst (snd act))"
      using buyToApply_inv[OF po, of "now e"] by simp
  qed
  have g: "blockedFree g" "shape g = shape (st_grid s)"
    using fold_commitBuy_board[OF bf acts, of "st_players s"] by (simp_all add: f)
  have confl: "list_all (conflictOk g) (snd (buyToApply (now e) s))"
    using buyToApply_inv[OF po, of "now e"] by (simp add: conflictOk_shape[OF g(2)] list_all_iff)
  have buys: "list_all (\<lambda>ent. list_all (\<lambda>a. unblockedId g (cellId a)) (snd ent)) (buy (st_pending s))"
    using po by (simp add: pendingOk_def unblockedId_shape[OF g(2)])
  show ?thesis
  proof (cases "snd (buyToApply (now e) s) = []")
    case True
    then show ?thesis
      using g(1) by (simp add: alarmBuyPhase_def Let_def f enterPathPhase_board)
  next
    case False
    then show ?thesis
      using g(1) confl buys
      by (simp add: alarmBuyPhase_def Let_def f) (simp add: boardOk_def pendingOk_def)
  qed
qed


subsection \<open>Auction\<close>

lemma resolveCellConflict_board:
  assumes "blockedFree g" and "unblockedId g cid"
  shows "blockedFree (fst (resolveCellConflict buys bids cid pids (g, ps)))
       \<and> shape (fst (resolveCellConflict buys bids cid pids (g, ps))) = shape g"
proof (cases "findCell cid g")
  case None
  then show ?thesis using assms by (simp add: resolveCellConflict_def)
next
  case (Some c)
  have 1: "blockedFree (updateFirst (\<lambda>x. cell_id x = cid) (\<lambda>x. x\<lparr>owners := Some os\<rparr>) g)" for os
    by (rule blockedFree_updateFirst[OF assms]) simp
  have 2: "shape (updateFirst (\<lambda>x. cell_id x = cid) (\<lambda>x. x\<lparr>owners := Some os\<rparr>) g) = shape g" for os
    by (rule shape_updateFirst) simp
  show ?thesis using 1 2 Some by (simp add: resolveCellConflict_def Let_def split: prod.splits)
qed

lemma resolveConflict_board:
  assumes "blockedFree (fst st)" and "conflictOk (fst st) c"
  shows "blockedFree (fst (resolveConflict pending c st))
       \<and> shape (fst (resolveConflict pending c st)) = shape (fst st)"
proof -
  obtain g ps md where st: "st = (g, ps, md)" by (metis prod_cases3)
  show ?thesis
  proof (cases c)
    case (CellConflict cfid cid pids)
    then have u: "unblockedId g cid" using assms(2) st by (simp add: conflictOk_def)
    have bf: "blockedFree g" using assms(1) st by simp
    show ?thesis
      using resolveCellConflict_board[OF bf u, of "buy pending" _ pids ps] CellConflict
      by (simp add: st resolveConflict_def Let_def split: prod.splits) (metis fst_conv)
  next
    case (MarketConflict cfid dieIx pids)
    then show ?thesis
      using assms(1) by (simp add: st resolveConflict_def Let_def split: prod.splits)
  qed
qed

lemma fold_resolveConflict_board:
  assumes "blockedFree (fst st)" and "\<forall>c \<in> set cs. conflictOk (fst st) c"
  shows "blockedFree (fst (fold (resolveConflict pending) cs st))
       \<and> shape (fst (fold (resolveConflict pending) cs st)) = shape (fst st)"
  using assms
proof (induction cs arbitrary: st)
  case Nil
  then show ?case by simp
next
  case (Cons c cs)
  have 1: "blockedFree (fst (resolveConflict pending c st))"
          "shape (fst (resolveConflict pending c st)) = shape (fst st)"
    using resolveConflict_board[of st c pending] Cons.prems by simp_all
  have 2: "\<forall>x \<in> set cs. conflictOk (fst (resolveConflict pending c st)) x"
    using Cons.prems(2) by (simp add: conflictOk_shape[OF 1(2)])
  show ?case using Cons.IH[OF 1(1) 2] 1(2) by simp
qed

lemma alarmAuction_board:
  assumes "boardOk s"
  shows "boardOk (fst (alarmAuction e config s))"
proof -
  let ?md0 = "case marketDice config of None \<Rightarrow> [] | Some d \<Rightarrow> d"
  obtain g ps md where f: "fold (resolveConflict (st_pending s)) (conflicts (st_pending s))
                              (st_grid s, st_players s, ?md0) = (g, ps, md)"
    by (metis prod_cases3)
  have "blockedFree (fst (fold (resolveConflict (st_pending s)) (conflicts (st_pending s))
                              (st_grid s, st_players s, ?md0)))"
    using fold_resolveConflict_board[of "(st_grid s, st_players s, ?md0)" "conflicts (st_pending s)"
            "st_pending s"] assms
    by (simp add: boardOk_def pendingOk_def list_all_iff)
  then have "blockedFree g" by (simp add: f)
  then show ?thesis
    by (simp add: alarmAuction_def Let_def f enterPathPhase_board)
qed

lemma cleanup_board: "boardOk (cleanupRoom s)"
  by (simp add: cleanupRoom_def boardOk_def blockedFree_def)

lemma alarm_board: "boardOk s \<Longrightarrow> boardOk (fst (alarm e s))"
  by (simp add: alarm_def cleanup_board alarmRoundStart_board alarmMarketPhase_board
        alarmBuyPhase_board alarmAuction_board alarmPathPhase_board alarmRoundEnd_board
        split: option.splits gamePhase.splits)

subsection \<open>Handlers\<close>

lemma boardOk_attach [simp]: "boardOk (s\<lparr>st_attach := a\<rparr>) = boardOk s"
  by (simp add: boardOk_def)

lemma boardOk_paths [simp]: "boardOk (s\<lparr>st_paths := a\<rparr>) = boardOk s"
  by (simp add: boardOk_def)

lemma pendingOk_other [simp]:
  "pendingOk g (pend\<lparr>market := m\<rparr>) = pendingOk g pend"
  "pendingOk g (pend\<lparr>marketSkip := k\<rparr>) = pendingOk g pend"
  "pendingOk g (pend\<lparr>buyDone := k\<rparr>) = pendingOk g pend"
  "pendingOk g (pend\<lparr>pathReady := k\<rparr>) = pendingOk g pend"
  "pendingOk g (pend\<lparr>auctionBids := ab\<rparr>) = pendingOk g pend"
  by (simp_all add: pendingOk_def)

lemma boardOk_pending: "boardOk (s\<lparr>st_pending := p\<rparr>) = (blockedFree (st_grid s) \<and> pendingOk (st_grid s) p)"
  by (simp add: boardOk_def)

lemma handleJoin_board: "boardOk s \<Longrightarrow> boardOk (fst (handleJoin e ws nm s))"
  by (simp add: handleJoin_def Let_def)

lemma handleRejoin_board: "boardOk s \<Longrightarrow> boardOk (fst (handleRejoin e ws pid nm s))"
  by (simp add: handleRejoin_def handleJoin_board)

lemma generateGrid_owners: "c \<in> set (generateGrid gd m b) \<Longrightarrow> owners c = Some []"
  by (auto simp: generateGrid_def Let_def)

lemma generateGrid_blockedFree: "blockedFree (generateGrid gd m b)"
  by (simp add: blockedFree_def list_all_iff owners_of_def generateGrid_owners)

lemma handleStartGame_board: "boardOk s \<Longrightarrow> boardOk (fst (handleStartGame e ws s))"
  by (simp add: handleStartGame_def Let_def split: option.splits)
     (simp add: boardOk_def generateGrid_blockedFree)

lemma handleMarketBid_board:
  assumes "boardOk s"
  shows "boardOk (fst (handleMarketBid e ws d a s))"
proof -
  have 1: "boardOk (s\<lparr>st_pending := (st_pending s)\<lparr>market := m, marketSkip := k\<rparr>\<rparr>)" for m k
    using assms by (simp add: boardOk_def)
  show ?thesis
    using assms 1
    by (simp add: handleMarketBid_def notJoined_def Let_def alarm_board split: option.splits)
qed

lemma handleMarketSkip_board:
  assumes "boardOk s"
  shows "boardOk (fst (handleMarketSkip e ws s))"
proof -
  have 1: "boardOk (s\<lparr>st_pending := (st_pending s)\<lparr>market := m, marketSkip := k\<rparr>\<rparr>)" for m k
    using assms by (simp add: boardOk_def)
  show ?thesis
    using assms 1
    by (simp add: handleMarketSkip_def notJoined_def Let_def alarm_board split: option.splits)
qed

lemma handleMarketRecycle_board: "boardOk s \<Longrightarrow> boardOk (fst (handleMarketRecycle e ws d s))"
  by (simp add: handleMarketRecycle_def split: option.splits)

lemma handleBuyDone_board:
  assumes "boardOk s"
  shows "boardOk (fst (handleBuyDone e ws s))"
proof -
  have 1: "boardOk (s\<lparr>st_pending := (st_pending s)\<lparr>buyDone := k\<rparr>\<rparr>)" for k
    using assms by (simp add: boardOk_def)
  show ?thesis
    using assms 1
    by (simp add: handleBuyDone_def notJoined_def Let_def alarm_board split: option.splits)
qed

lemma handlePathDone_board:
  assumes "boardOk s"
  shows "boardOk (fst (handlePathDone e ws s))"
proof -
  have 1: "boardOk (s\<lparr>st_pending := (st_pending s)\<lparr>pathReady := k\<rparr>\<rparr>)" for k
    using assms by (simp add: boardOk_def)
  show ?thesis
    using assms 1
    by (simp add: handlePathDone_def notJoined_def Let_def alarm_board split: option.splits)
qed

lemma handleAuctionBid_board:
  assumes "boardOk s"
  shows "boardOk (fst (handleAuctionBid e ws c a s))"
proof -
  have 1: "boardOk (s\<lparr>st_pending := (st_pending s)\<lparr>auctionBids := k\<rparr>\<rparr>)" for k
    using assms by (simp add: boardOk_def)
  show ?thesis
    using assms 1
    by (simp add: handleAuctionBid_def Let_def split: option.splits)
qed

lemma handlePath_board:
  assumes "boardOk s"
  shows "boardOk (fst (handlePath e ws a b pth s))"
proof -
  have 1: "boardOk (s\<lparr>st_pending := (st_pending s)\<lparr>pathReady := k\<rparr>, st_paths := p\<rparr>)" for k p
    using assms by (simp add: boardOk_def)
  show ?thesis
    using assms 1
    by (simp add: handlePath_def Let_def split: option.splits)
qed

lemma delete_set_subset: "set (AList.delete k al) \<subseteq> set al"
  by (auto simp: AList.delete_eq)

lemma pendingOk_buy_update:
  assumes "pendingOk g pend" and "\<forall>a \<in> set acts. unblockedId g (cellId a)"
  shows "pendingOk g (pend\<lparr>buy := recordPut pid acts (buy pend), buyDone := k\<rparr>)"
  using assms recordPut_set[of pid acts "buy pend"]
  by (auto simp: pendingOk_def list_all_iff)

lemma pendingOk_buy_delete:
  assumes "pendingOk g pend"
  shows "pendingOk g (pend\<lparr>buy := AList.delete pid (buy pend), buyDone := k\<rparr>)"
  using assms delete_set_subset[of pid "buy pend"]
  by (auto simp: pendingOk_def list_all_iff)

lemma current_ok:
  assumes "pendingOk g pend"
  shows "\<forall>a \<in> set (case map_of (buy pend) pid of None \<Rightarrow> [] | Some a \<Rightarrow> a). unblockedId g (cellId a)"
proof (cases "map_of (buy pend) pid")
  case None
  then show ?thesis by simp
next
  case (Some acts)
  then have "(pid, acts) \<in> set (buy pend)" by (rule map_of_SomeD)
  then show ?thesis using assms Some by (auto simp: pendingOk_def list_all_iff)
qed

lemma queueStep_subset: "set (snd (queueStep g a st)) \<subseteq> insert a (set (snd st))"
  by (cases st) (auto simp: queueStep_def split: option.splits)

lemma fold_queueStep_subset: "set (snd (fold (queueStep g) xs st)) \<subseteq> set (snd st) \<union> set xs"
proof (induction xs arbitrary: st)
  case Nil
  show ?case by simp
next
  case (Cons x xs)
  show ?case using Cons.IH[of "queueStep g x st"] queueStep_subset[of g x st] by auto
qed

lemma handleBuyCell_board:
  assumes "boardOk s"
  shows "boardOk (fst (handleBuyCell e ws cid rl s))"
proof -
  have bf: "blockedFree (st_grid s)" and po: "pendingOk (st_grid s) (st_pending s)"
    using assms by (simp_all add: boardOk_def)
  have upd: "boardOk (s\<lparr>st_pending := (st_pending s)\<lparr>buy := recordPut pid
                  (snd (fold (queueStep (st_grid s))
                     (filter (\<lambda>a. cellId a \<noteq> cid)
                        (case map_of (buy (st_pending s)) pid of None \<Rightarrow> [] | Some a \<Rightarrow> a)
                      @ [\<lparr>cellId = cid, buyRole = rl\<rparr>]) (pool, [])))
                  (buy (st_pending s)), buyDone := k\<rparr>\<rparr>)"
    if "findCell cid (st_grid s) = Some c" and "\<not> blocked c" for pid pool k c
  proof -
    let ?cand = "filter (\<lambda>a. cellId a \<noteq> cid)
                        (case map_of (buy (st_pending s)) pid of None \<Rightarrow> [] | Some a \<Rightarrow> a)
                      @ [\<lparr>cellId = cid, buyRole = rl\<rparr>]"
    have new: "unblockedId (st_grid s) cid" using that by (simp add: unblockedId_def)
    have "\<forall>a \<in> set ?cand. unblockedId (st_grid s) (cellId a)"
      using current_ok[OF po, of pid] new by auto
    moreover have "set (snd (fold (queueStep (st_grid s)) ?cand (pool, []))) \<subseteq> set ?cand"
      using fold_queueStep_subset[of "st_grid s" ?cand "(pool, [])"] by simp
    ultimately have "\<forall>a \<in> set (snd (fold (queueStep (st_grid s)) ?cand (pool, []))).
                 unblockedId (st_grid s) (cellId a)"
      by blast
    from pendingOk_buy_update[OF po this] bf show ?thesis
      by (simp add: boardOk_pending)
  qed
  show ?thesis
    using assms upd
    by (simp add: handleBuyCell_def notJoined_def Let_def split: option.splits)
qed

lemma handleBuyCellCancel_board:
  assumes "boardOk s"
  shows "boardOk (fst (handleBuyCellCancel e ws cid s))"
proof -
  have bf: "blockedFree (st_grid s)" and po: "pendingOk (st_grid s) (st_pending s)"
    using assms by (simp_all add: boardOk_def)
  have 1: "boardOk (s\<lparr>st_pending := (st_pending s)\<lparr>buy := AList.delete pid (buy (st_pending s)),
                                                   buyDone := k\<rparr>\<rparr>)" for pid k
    using pendingOk_buy_delete[OF po] bf by (simp add: boardOk_pending)
  have "\<forall>a \<in> set (filter (\<lambda>a. cellId a \<noteq> cid)
             (case map_of (buy (st_pending s)) pid of None \<Rightarrow> [] | Some a \<Rightarrow> a)).
            unblockedId (st_grid s) (cellId a)" for pid
    using current_ok[OF po, of pid] by auto
  from pendingOk_buy_update[OF po this]
  have 2: "boardOk (s\<lparr>st_pending := (st_pending s)\<lparr>buy := recordPut pid
               (filter (\<lambda>a. cellId a \<noteq> cid)
                  (case map_of (buy (st_pending s)) pid of None \<Rightarrow> [] | Some a \<Rightarrow> a))
               (buy (st_pending s)), buyDone := k\<rparr>\<rparr>)" for pid k
    using bf by (simp add: boardOk_pending)
  show ?thesis
    using assms 1 2
    by (simp add: handleBuyCellCancel_def notJoined_def Let_def split: option.splits)
qed

lemma tick_board:
  assumes "boardOk s"
  shows "boardOk (fst (andThen (maybeAdvanceTimedPhase e s) (broadcastState e)))"
proof (rule andThen_inv[where I = boardOk])
  show "boardOk (fst (maybeAdvanceTimedPhase e s))"
    using assms by (simp add: maybeAdvanceTimedPhase_def alarm_board split: option.splits)
qed simp

lemma webSocketMessage_board:
  "boardOk s \<Longrightarrow> boardOk (fst (webSocketMessage e ws msg s))"
  by (cases msg)
     (simp_all add: webSocketMessage_def tick_board handleJoin_board handleRejoin_board
        handleStartGame_board handleBuyCell_board handleBuyCellCancel_board handleBuyDone_board
        handleAuctionBid_board handlePath_board handlePathDone_board handleMarketBid_board
        handleMarketSkip_board handleMarketRecycle_board)

lemma reachable_boardOk: "reachable s \<Longrightarrow> boardOk s"
proof (induction rule: reachable.induct)
  case reach_fresh
  show ?case by (simp add: emptyRoom_def boardOk_def blockedFree_def)
next
  case (reach_init n)
  show ?case by (simp add: initialize_def emptyRoom_def boardOk_def blockedFree_def)
next
  case (reach_message s e ws msg)
  then show ?case by (simp add: webSocketMessage_board)
next
  case (reach_alarm s e)
  then show ?case by (simp add: alarm_board)
next
  case (reach_close s e)
  then show ?case by (simp add: webSocketClose_def)
qed


text \<open>
  Claim C9.  In every reachable state a blocked cell of the grid has no owners.  The
  parts of the argument: every cell that \<open>generateGrid\<close> makes starts with the empty
  owners list; a request to queue a buy for a blocked cell is answered with the error
  \<open>Invalid buy\<close> and changes nothing; every claim that buy-phase resolution commits names
  an unblocked cell; and the cells named by queued buys and by cell conflicts are
  unblocked throughout, so the auction adds owners to unblocked cells only.
\<close>

theorem blocked_cells_unowned:
  assumes "reachable s" and "c \<in> set (st_grid s)" and "blocked c"
  shows "owners_of c = []
       \<and> (\<forall>c' \<in> set (generateGrid gd m b). owners c' = Some [])
       \<and> (joinedAs s ws = Some pid \<and> phaseIs s Buy_phase
            \<and> findCell (cell_id c) (st_grid s) = Some c
          \<longrightarrow> handleBuyCell e ws (cell_id c) rl s = (s, [SendTo ws (ErrorMsg ''Invalid buy'')]))
       \<and> (\<forall>act \<in> set (buyFiltered t s). unblockedId (st_grid s) (fst (snd act)))
       \<and> (\<forall>cf \<in> set (conflicts (st_pending s)). conflictOk (st_grid s) cf)"
proof -
  have ok: "boardOk s" by (rule reachable_boardOk[OF assms(1)])
  have 1: "owners_of c = []"
    using ok assms(2,3) by (simp add: boardOk_def blockedFree_def list_all_iff)
  have 2: "\<forall>c' \<in> set (generateGrid gd m b). owners c' = Some []"
    by (simp add: generateGrid_owners)
  have 3: "joinedAs s ws = Some pid \<and> phaseIs s Buy_phase
            \<and> findCell (cell_id c) (st_grid s) = Some c
          \<longrightarrow> handleBuyCell e ws (cell_id c) rl s = (s, [SendTo ws (ErrorMsg ''Invalid buy'')])"
    using assms(3) by (simp add: handleBuyCell_def split: option.splits)
  have po: "pendingOk (st_grid s) (st_pending s)" using ok by (simp add: boardOk_def)
  have 4: "\<forall>act \<in> set (buyFiltered t s). unblockedId (st_grid s) (fst (snd act))"
  proof
    fix act assume "act \<in> set (buyFiltered t s)"
    then have "act \<in> set (fst (buyToApply t s))"
      using filterToApply_subset[of "st_grid s" "st_players s" "fst (buyToApply t s)"]
      by (auto simp: buyFiltered_def)
    then show "unblockedId (st_grid s) (fst (snd act))"
      using buyToApply_inv[OF po, of t] by simp
  qed
  have 5: "\<forall>cf \<in> set (conflicts (st_pending s)). conflictOk (st_grid s) cf"
    using po by (simp add: pendingOk_def list_all_iff)
  from 1 2 3 4 5 show ?thesis by blast
qed

theorem blocked_cells_unowned_witness:
  "reachable exR6
   \<and> st_grid exR6 ! 1 \<in> set (st_grid exR6)
   \<and> blocked (st_grid exR6 ! 1)
   \<and> cell_id (st_grid exR6 ! 1) = ''cell--1-1''
   \<and> joinedAs exR6 0 = Some ''aaaa1111'' \<and> phaseIs exR6 Buy_phase
   \<and> findCell ''cell--1-1'' (st_grid exR6) = Some (st_grid exR6 ! 1)
   \<and> owners_of (st_grid exR6 ! 1) = []
   \<and> handleBuyCell exEnv 0 ''cell--1-1'' Producer exR6
        = (exR6, [SendTo 0 (ErrorMsg ''Invalid buy'')])"
proof -
  have r: "reachable exR6" using exRun_reachable by simp
  have m: "st_grid exR6 ! 1 \<in> set (st_grid exR6)" by code_simp
  have b: "blocked (st_grid exR6 ! 1)" by code_simp
  have i: "cell_id (st_grid exR6 ! 1) = ''cell--1-1''" by code_simp
  have j: "joinedAs exR6 0 = Some ''aaaa1111'' \<and> phaseIs exR6 Buy_phase" by code_simp
  have f: "findCell ''cell--1-1'' (st_grid exR6) = Some (st_grid exR6 ! 1)" by code_simp
  from blocked_cells_unowned[OF r m b, of _ _ _ 0 "''aaaa1111''" exEnv Producer] r m b i j f
  show ?thesis by simp
qed

section \<open>Buy-phase resolution and the dice pool\<close>

lemma dieCounts_count: "dieCounts ds v = int (count_list ds v)"
proof -
  have "fold (\<lambda>d c. c(d := c d + 1)) ds c0 v = c0 v + int (count_list ds v)" for c0
    by (induction ds arbitrary: c0) auto
  then show ?thesis by (simp add: dieCounts_def)
qed

lemma playerDicePool_distinct:
  assumes "distinct (map playerId ps)"
  shows "playerDicePool ps pid = map_option (\<lambda>p. dieCounts (dice p)) (findPlayer pid ps)"
proof -
  have "fold (\<lambda>p m. m(playerId p \<mapsto> dieCounts (dice p))) ps m0 pid
          = (case findPlayer pid ps of None \<Rightarrow> m0 pid | Some p \<Rightarrow> Some (dieCounts (dice p)))"
    if "distinct (map playerId ps)" for m0
    using that
  proof (induction ps arbitrary: m0)
    case Nil
    show ?case by (simp add: findPlayer_def)
  next
    case (Cons p ps)
    have "playerId p \<notin> set (map playerId ps)" using Cons.prems by simp
    then have "playerId p = pid \<Longrightarrow> findPlayer pid ps = None"
      by (auto simp: findPlayer_def find_None_iff image_iff)
    then show ?case using Cons by (auto simp: findPlayer_def)
  qed
  from this[OF assms, of Map.empty] show ?thesis
    by (simp add: playerDicePool_def split: option.splits)
qed

lemma poolStep_cases:
  "poolStep g a (pool, kept) =
     (case dvOf g a of
        None \<Rightarrow> (pool, kept)
      | Some v \<Rightarrow> if leftOf pool (fst a) v \<le> 0 then (pool, kept)
                  else (pool(fst a \<mapsto> (the (pool (fst a)))(v := leftOf pool (fst a) v - 1)), kept @ [a]))"
  by (auto simp: poolStep_def dvOf_def leftOf_def split: option.splits)

lemma fold_poolStep_key:
  "filter (\<lambda>a. fst a = pid \<and> dvOf g a = Some v) (snd (fold (poolStep g) xs (pool, kept)))
     = filter (\<lambda>a. fst a = pid \<and> dvOf g a = Some v) kept
       @ take (nat (leftOf pool pid v)) (filter (\<lambda>a. fst a = pid \<and> dvOf g a = Some v) xs)"
proof (induction xs arbitrary: pool kept)
  case Nil
  show ?case by simp
next
  case (Cons a xs)
  show ?case
  proof (cases "dvOf g a")
    case None
    then show ?thesis using Cons.IH[of pool kept] by (simp add: poolStep_cases)
  next
    case (Some w)
    show ?thesis
    proof (cases "leftOf pool (fst a) w \<le> 0")
      case True
      then show ?thesis using Some Cons.IH[of pool kept] by (auto simp: poolStep_cases)
    next
      case False
      let ?pool' = "pool(fst a \<mapsto> (the (pool (fst a)))(w := leftOf pool (fst a) w - 1))"
      have step: "poolStep g a (pool, kept) = (?pool', kept @ [a])"
        using Some False by (simp add: poolStep_cases)
      show ?thesis
      proof (cases "fst a = pid \<and> w = v")
        case True
        have l: "leftOf ?pool' pid v = leftOf pool pid v - 1"
          using True by (simp add: leftOf_def)
        have pos: "0 < leftOf pool pid v" using False True by simp
        have tk: "take (nat (leftOf pool pid v)) (a # ys) = a # take (nat (leftOf pool pid v - 1)) ys" for ys
          using pos by (cases "nat (leftOf pool pid v)") (auto simp: nat_diff_distrib)
        have key: "fst a = pid \<and> dvOf g a = Some v" using True Some by simp
        have "filter (\<lambda>a. fst a = pid \<and> dvOf g a = Some v) (snd (fold (poolStep g) (a # xs) (pool, kept)))
            = filter (\<lambda>a. fst a = pid \<and> dvOf g a = Some v) (snd (fold (poolStep g) xs (?pool', kept @ [a])))"
          by (simp only: fold_simps step)
        also have "\<dots> = filter (\<lambda>a. fst a = pid \<and> dvOf g a = Some v) (kept @ [a])
             @ take (nat (leftOf ?pool' pid v)) (filter (\<lambda>a. fst a = pid \<and> dvOf g a = Some v) xs)"
          by (rule Cons.IH)
        also have "\<dots> = filter (\<lambda>a. fst a = pid \<and> dvOf g a = Some v) kept
             @ take (nat (leftOf pool pid v)) (filter (\<lambda>a. fst a = pid \<and> dvOf g a = Some v) (a # xs))"
        proof -
          have f1: "filter (\<lambda>a. fst a = pid \<and> dvOf g a = Some v) (kept @ [a])
                     = filter (\<lambda>a. fst a = pid \<and> dvOf g a = Some v) kept @ [a]"
            using key by simp
          have f2: "filter (\<lambda>a. fst a = pid \<and> dvOf g a = Some v) (a # xs)
                     = a # filter (\<lambda>a. fst a = pid \<and> dvOf g a = Some v) xs"
            using key by simp
          show ?thesis unfolding f1 f2 l tk by simp
        qed
        finally show ?thesis .
      next
        case nk: False
        have "pool (fst a) \<noteq> None" using False by (cases "pool (fst a)") (simp_all add: leftOf_def)
        then have l: "leftOf ?pool' pid v = leftOf pool pid v"
          using nk by (auto simp: leftOf_def split: option.splits)
        have key: "\<not> (fst a = pid \<and> dvOf g a = Some v)" using nk Some by auto
        have "filter (\<lambda>a. fst a = pid \<and> dvOf g a = Some v) (snd (fold (poolStep g) (a # xs) (pool, kept)))
            = filter (\<lambda>a. fst a = pid \<and> dvOf g a = Some v) (snd (fold (poolStep g) xs (?pool', kept @ [a])))"
          by (simp only: fold_simps step)
        also have "\<dots> = filter (\<lambda>a. fst a = pid \<and> dvOf g a = Some v) (kept @ [a])
             @ take (nat (leftOf ?pool' pid v)) (filter (\<lambda>a. fst a = pid \<and> dvOf g a = Some v) xs)"
          by (rule Cons.IH)
        also have "\<dots> = filter (\<lambda>a. fst a = pid \<and> dvOf g a = Some v) kept
             @ take (nat (leftOf pool pid v)) (filter (\<lambda>a. fst a = pid \<and> dvOf g a = Some v) (a # xs))"
        proof -
          have f1: "filter (\<lambda>a. fst a = pid \<and> dvOf g a = Some v) (kept @ [a])
                     = filter (\<lambda>a. fst a = pid \<and> dvOf g a = Some v) kept"
            using key by simp
          have f2: "filter (\<lambda>a. fst a = pid \<and> dvOf g a = Some v) (a # xs)
                     = filter (\<lambda>a. fst a = pid \<and> dvOf g a = Some v) xs"
            using key by simp
          show ?thesis unfolding f1 f2 l by simp
        qed
        finally show ?thesis .
      qed
    qed
  qed
qed

lemma filterToApply_key:
  assumes "distinct (map playerId ps)" and "findPlayer pid ps = Some pl"
  shows "filter (\<lambda>a. fst a = pid \<and> dvOf g a = Some v) (filterToApply g ps xs)
     = take (count_list (dice pl) v) (filter (\<lambda>a. fst a = pid \<and> dvOf g a = Some v) xs)"
proof -
  have "leftOf (playerDicePool ps) pid v = int (count_list (dice pl) v)"
    by (simp add: leftOf_def playerDicePool_distinct[OF assms(1)] assms(2) dieCounts_count)
  then show ?thesis
    using fold_poolStep_key[of pid g v xs "playerDicePool ps" "[]"]
    by (simp add: filterToApply_def)
qed

lemma keysOf_snoc:
  "keysOf (xs @ [x]) = (if x \<in> set (keysOf xs) then keysOf xs else keysOf xs @ [x])"
  by (simp add: keysOf_def)

lemma keysOf_Nil [simp]: "keysOf [] = []"
  by (simp add: keysOf_def)

lemma keysOf_single [simp]: "keysOf [x] = [x]"
  by (simp add: keysOf_def)

lemma set_keysOf [simp]: "set (keysOf xs) = set xs"
  by (induction xs rule: rev_induct) (auto simp: keysOf_snoc)

lemma distinct_keysOf [simp]: "distinct (keysOf xs)"
  by (induction xs rule: rev_induct) (auto simp: keysOf_snoc)

lemma keysOf_distinct: "distinct xs \<Longrightarrow> keysOf xs = xs"
  by (induction xs rule: rev_induct) (auto simp: keysOf_snoc)

lemma filter_keysOf: "filter Q (keysOf xs) = keysOf (filter Q xs)"
  by (induction xs rule: rev_induct) (auto simp: keysOf_snoc)

lemma collectAct_fresh:
  "cellId act \<noteq> [] \<Longrightarrow> cellId act \<notin> set seen \<Longrightarrow>
     collectAct pid act (seen, roles, byCell)
       = (cellId act # seen, AList.update (claimKey pid (cellId act)) (buyRole act) roles,
          addClaim (pid, cellId act) byCell)"
  by (cases "map_of byCell (cellId act)") (simp_all add: collectAct_def addClaim_def Let_def)

lemma fold_collectAct:
  assumes "distinct (map cellId acts)" and "\<forall>a \<in> set acts. cellId a \<noteq> []"
    and "\<forall>a \<in> set acts. cellId a \<notin> set seen"
  shows "snd (snd (fold (collectAct pid) acts (seen, roles, byCell)))
           = fold addClaim (map (\<lambda>a. (pid, cellId a)) acts) byCell
       \<and> fst ` set (fst (snd (fold (collectAct pid) acts (seen, roles, byCell))))
           = fst ` set roles \<union> (\<lambda>a. claimKey pid (cellId a)) ` set acts"
  using assms
proof (induction acts arbitrary: seen roles byCell)
  case Nil
  show ?case by simp
next
  case (Cons a acts)
  have step: "collectAct pid a (seen, roles, byCell)
       = (cellId a # seen, AList.update (claimKey pid (cellId a)) (buyRole a) roles,
          addClaim (pid, cellId a) byCell)"
    using Cons.prems by (intro collectAct_fresh) auto
  have "cellId a \<notin> set (map cellId acts)" using Cons.prems(1) by simp
  then have ne: "\<forall>x \<in> set acts. cellId x \<noteq> cellId a" by (auto simp: image_iff)
  have 1: "distinct (map cellId acts)" "\<forall>x \<in> set acts. cellId x \<noteq> []"
          "\<forall>x \<in> set acts. cellId x \<notin> set (cellId a # seen)"
    using Cons.prems ne by simp_all
  show ?case
    using Cons.IH[OF 1, of "AList.update (claimKey pid (cellId a)) (buyRole a) roles"
                          "addClaim (pid, cellId a) byCell"]
    by (auto simp: step update_keys_subset)
qed

lemma collectPlayer_wf:
  assumes "distinct (map cellId (snd ent))" and "\<forall>a \<in> set (snd ent). cellId a \<noteq> []"
  shows "snd (collectPlayer ent (roles, byCell))
           = fold addClaim (map (\<lambda>a. (fst ent, cellId a)) (snd ent)) byCell
       \<and> fst ` set (fst (collectPlayer ent (roles, byCell)))
           = fst ` set roles \<union> (\<lambda>a. claimKey (fst ent) (cellId a)) ` set (snd ent)"
  using fold_collectAct[OF assms, of "[]" "fst ent" roles byCell]
  by (simp add: collectPlayer_def)

lemma fold_collectPlayer_wf:
  assumes "\<forall>e \<in> set entries. distinct (map cellId (snd e)) \<and> (\<forall>a \<in> set (snd e). cellId a \<noteq> [])"
  shows "snd (fold collectPlayer entries st) = fold addClaim (flatClaims entries) (snd st)
       \<and> fst ` set (fst (fold collectPlayer entries st))
           = fst ` set (fst st) \<union> (\<lambda>pc. claimKey (fst pc) (snd pc)) ` set (flatClaims entries)"
  using assms
proof (induction entries arbitrary: st)
  case Nil
  show ?case by (simp add: flatClaims_def)
next
  case (Cons e entries)
  obtain roles byCell where st: "st = (roles, byCell)" by (metis surj_pair)
  have e: "distinct (map cellId (snd e))" "\<forall>a \<in> set (snd e). cellId a \<noteq> []"
    using Cons.prems by auto
  have rest: "\<forall>e \<in> set entries. distinct (map cellId (snd e)) \<and> (\<forall>a \<in> set (snd e). cellId a \<noteq> [])"
    using Cons.prems by auto
  note p = collectPlayer_wf[OF e, of roles byCell]
  show ?case
    using Cons.IH[OF rest, of "collectPlayer e st"] p
    by (auto simp: st flatClaims_def image_Un image_image)
qed

lemma group_keys: "map fst (fold addClaim F []) = keysOf (map snd F)"
proof (induction F rule: rev_induct)
  case Nil
  show ?case by simp
next
  case (snoc x F)
  then show ?case
    by (simp add: keysOf_snoc addClaim_def Let_def update_keys)
qed

lemma group_values:
  "map_of (fold addClaim F []) c
     = (if c \<in> snd ` set F then Some (keysOf (map fst (filter (\<lambda>e. snd e = c) F))) else None)"
proof (induction F rule: rev_induct)
  case Nil
  show ?case by simp
next
  case (snoc x F)
  have emp: "c \<notin> snd ` set F \<Longrightarrow> filter (\<lambda>e. snd e = c) F = []"
    by (auto simp: filter_empty_conv)
  show ?case
  proof (cases "snd x = c")
    case True
    show ?thesis
    proof (cases "c \<in> snd ` set F")
      case in_F: True
      then show ?thesis
        using snoc True by (simp add: addClaim_def Let_def update_conv' keysOf_snoc)
    next
      case False
      then show ?thesis
        using snoc True emp by (simp add: addClaim_def Let_def update_conv' keysOf_snoc)
    qed
  next
    case False
    then show ?thesis
      using snoc by (auto simp: addClaim_def Let_def update_conv')
  qed
qed

lemma classifyCell_fst:
  "fst (classifyCell t g ps roles ent (ta, cf)) = ta @ fst (classifyCell t g ps roles ent ([], []))"
  by (simp add: classifyCell_def Let_def split: option.splits)

lemma fold_classifyCell_fst:
  "fst (fold (classifyCell t g ps roles) byCell st)
     = fst st @ concat (map (\<lambda>ent. fst (classifyCell t g ps roles ent ([], []))) byCell)"
proof (induction byCell arbitrary: st)
  case Nil
  show ?case by simp
next
  case (Cons ent byCell)
  obtain ta cf where st: "st = (ta, cf)" by (metis surj_pair)
  show ?case
    using Cons.IH[of "classifyCell t g ps roles ent st"] classifyCell_fst[of t g ps roles ent ta cf]
    by (simp add: st)
qed

lemma single_hd: "(length pids = 1 \<and> hd pids = p) = (pids = [p])"
  by (cases pids) auto

lemma classifyCell_player:
  "map (fst \<circ> snd) (filter (\<lambda>a. fst a = P) (fst (classifyCell t g ps roles ent ([], []))))
     = (if snd ent = [P] \<and> committable g ps P (fst ent) \<and> map_of roles (claimKey P (fst ent)) \<noteq> None
        then [fst ent] else [])"
proof (cases "length (snd ent) = 1")
  case False
  then show ?thesis by (auto simp: classifyCell_def Let_def)
next
  case True
  then obtain p where p: "snd ent = [p]" by (cases "snd ent") auto
  show ?thesis
    by (auto simp: classifyCell_def Let_def p committable_def split: option.splits)
qed

lemma toApply_player:
  "map (fst \<circ> snd) (filter (\<lambda>a. fst a = P) (fst (fold (classifyCell t g ps roles) byCell ([], []))))
     = map fst (filter (\<lambda>ent. snd ent = [P] \<and> committable g ps P (fst ent)
                             \<and> map_of roles (claimKey P (fst ent)) \<noteq> None) byCell)"
proof -
  have "map (fst \<circ> snd) (filter (\<lambda>a. fst a = P)
          (concat (map (\<lambda>ent. fst (classifyCell t g ps roles ent ([], []))) byCell)))
      = map fst (filter (\<lambda>ent. snd ent = [P] \<and> committable g ps P (fst ent)
                             \<and> map_of roles (claimKey P (fst ent)) \<noteq> None) byCell)"
  proof (induction byCell)
    case Nil
    show ?case by simp
  next
    case (Cons ent byCell)
    show ?case
      using Cons.IH classifyCell_player[of P t g ps roles ent]
      by (simp del: comp_apply) 
  qed
  then show ?thesis by (simp add: fold_classifyCell_fst del: comp_apply)
qed

lemma distinct_alist_filter:
  "distinct (map fst al) \<Longrightarrow>
     map fst (filter (\<lambda>e. R (fst e) (snd e)) al)
       = filter (\<lambda>k. \<exists>v. map_of al k = Some v \<and> R k v) (map fst al)"
proof (induction al)
  case Nil
  show ?case by simp
next
  case (Cons e al)
  obtain k v where e: "e = (k, v)" by (metis surj_pair)
  have k: "k \<notin> set (map fst al)" and d: "distinct (map fst al)" using Cons.prems e by simp_all
  have "filter (\<lambda>k'. \<exists>v'. map_of ((k, v) # al) k' = Some v' \<and> R k' v') (map fst al)
      = filter (\<lambda>k'. \<exists>v'. map_of al k' = Some v' \<and> R k' v') (map fst al)"
    using k by (intro filter_cong) auto
  then show ?case using Cons.IH[OF d] by (simp add: e)
qed

lemma keysOf_eq_single: "(keysOf xs = [p]) = (xs \<noteq> [] \<and> set xs = {p})"
proof
  assume "keysOf xs = [p]"
  then have "set (keysOf xs) = {p}" by simp
  then show "xs \<noteq> [] \<and> set xs = {p}" by auto
next
  assume a: "xs \<noteq> [] \<and> set xs = {p}"
  have d: "distinct (keysOf xs)" and s: "set (keysOf xs) = {p}" using a by simp_all
  show "keysOf xs = [p]"
  proof (cases "keysOf xs")
    case Nil
    then show ?thesis using s by simp
  next
    case (Cons y ys)
    then have "y = p" "set ys \<subseteq> {p}" "y \<notin> set ys" using s d by auto
    then have "ys = []" by (cases ys) auto
    then show ?thesis using Cons \<open>y = p\<close> by simp
  qed
qed

lemma sole_iff:
  "soleClaimant entries P c = (\<forall>pc \<in> set (flatClaims entries). snd pc = c \<longrightarrow> fst pc = P)"
  by (auto simp: soleClaimant_def flatClaims_def list_all_iff list_ex_iff)

lemma flatClaims_append: "flatClaims (xs @ ys) = flatClaims xs @ flatClaims ys"
  by (simp add: flatClaims_def)

lemma flatClaims_Cons: "flatClaims (e # es) = map (\<lambda>a. (fst e, cellId a)) (snd e) @ flatClaims es"
  by (simp add: flatClaims_def)

lemma flatClaims_fst: "pc \<in> set (flatClaims es) \<Longrightarrow> fst pc \<in> fst ` set es"
  by (force simp: flatClaims_def)

lemma sole_cells:
  assumes wf: "wellFormedQueues entries" and mem: "(P, acts) \<in> set entries"
    and cb: "collectBuys entries = (roles, byCell)"
  shows "map fst (filter (\<lambda>ent. snd ent = [P] \<and> Q (fst ent)
                             \<and> map_of roles (claimKey P (fst ent)) \<noteq> None) byCell)
       = filter (\<lambda>c. soleClaimant entries P c \<and> Q c) (map cellId acts)"
proof -
  let ?F = "flatClaims entries"
  have wf': "\<forall>e \<in> set entries. distinct (map cellId (snd e)) \<and> (\<forall>a \<in> set (snd e). cellId a \<noteq> [])"
    using wf by (auto simp: wellFormedQueues_def list_all_iff list_ex_iff)
  have dk: "distinct (map fst entries)" using wf by (simp add: wellFormedQueues_def)
  note cp = fold_collectPlayer_wf[OF wf', of "([], [])"]
  have byCell: "byCell = fold addClaim ?F []"
    using cp cb by (simp add: collectBuys_def)
  have rk: "fst ` set roles = (\<lambda>pc. claimKey (fst pc) (snd pc)) ` set ?F"
    using cp cb by (simp add: collectBuys_def)
  have keys: "map fst byCell = keysOf (map snd ?F)" by (simp add: byCell group_keys)
  have d: "distinct (map fst byCell)" by (simp add: keys)
  have 1: "map fst (filter (\<lambda>ent. snd ent = [P] \<and> Q (fst ent)
                             \<and> map_of roles (claimKey P (fst ent)) \<noteq> None) byCell)
       = filter (\<lambda>k. \<exists>v. map_of byCell k = Some v \<and> v = [P] \<and> Q k
                             \<and> map_of roles (claimKey P k) \<noteq> None) (map fst byCell)"
    using distinct_alist_filter[OF d, of "\<lambda>k v. v = [P] \<and> Q k \<and> map_of roles (claimKey P k) \<noteq> None"]
    by simp
  have 2: "(\<exists>v. map_of byCell k = Some v \<and> v = [P] \<and> Q k \<and> map_of roles (claimKey P k) \<noteq> None)
           = (soleClaimant entries P k \<and> Q k)"
    if k: "k \<in> set (keysOf (map snd ?F))" for k
  proof -
    have kin: "k \<in> snd ` set ?F" using k by simp
    then have ne: "map fst (filter (\<lambda>e. snd e = k) ?F) \<noteq> []"
      by (force simp: filter_empty_conv)
    have v: "map_of byCell k = Some (keysOf (map fst (filter (\<lambda>e. snd e = k) ?F)))"
      using kin by (simp add: byCell group_values)
    have s: "(keysOf (map fst (filter (\<lambda>e. snd e = k) ?F)) = [P]) = soleClaimant entries P k"
    proof
      assume "keysOf (map fst (filter (\<lambda>e. snd e = k) ?F)) = [P]"
      then have "set (map fst (filter (\<lambda>e. snd e = k) ?F)) = {P}"
        by (simp add: keysOf_eq_single)
      then show "soleClaimant entries P k" by (force simp: sole_iff)
    next
      assume "soleClaimant entries P k"
      then have "set (map fst (filter (\<lambda>e. snd e = k) ?F)) \<subseteq> {P}" by (auto simp: sole_iff)
      moreover have "set (map fst (filter (\<lambda>e. snd e = k) ?F)) \<noteq> {}"
        using ne by (simp only: set_empty) simp
      ultimately have "set (map fst (filter (\<lambda>e. snd e = k) ?F)) = {P}"
        by (metis subset_singletonD)
      then show "keysOf (map fst (filter (\<lambda>e. snd e = k) ?F)) = [P]"
        using ne by (simp only: keysOf_eq_single) simp
    qed
    have r: "map_of roles (claimKey P k) \<noteq> None" if "soleClaimant entries P k"
    proof -
      obtain pc where pc: "pc \<in> set ?F" "snd pc = k" using kin by auto
      then have "fst pc = P" using that by (simp add: sole_iff)
      then have "claimKey P k \<in> fst ` set roles" using pc rk by force
      then show ?thesis by (simp add: map_of_eq_None_iff)
    qed
    show ?thesis using v s r by auto
  qed
  have 3: "filter (\<lambda>k. \<exists>v. map_of byCell k = Some v \<and> v = [P] \<and> Q k
                             \<and> map_of roles (claimKey P k) \<noteq> None) (map fst byCell)
         = filter (\<lambda>k. soleClaimant entries P k \<and> Q k) (keysOf (map snd ?F))"
    unfolding keys using 2 by (intro filter_cong) auto
  obtain E1 E2 where split: "entries = E1 @ (P, acts) # E2"
    using mem by (meson split_list)
  have notP: "P \<notin> fst ` set E1" "P \<notin> fst ` set E2"
    using dk by (auto simp: split)
  have F: "map snd ?F = map snd (flatClaims E1) @ map cellId acts @ map snd (flatClaims E2)"
    by (simp add: split flatClaims_append flatClaims_Cons comp_def)
  have out: "filter (\<lambda>k. soleClaimant entries P k \<and> Q k) (map snd (flatClaims E)) = []"
    if "P \<notin> fst ` set E" and "set (flatClaims E) \<subseteq> set ?F" for E
  proof -
    have "\<not> soleClaimant entries P (snd pc)" if m: "pc \<in> set (flatClaims E)" for pc
    proof -
      have "fst pc \<noteq> P" using flatClaims_fst[OF m] \<open>P \<notin> fst ` set E\<close> by auto
      moreover have "pc \<in> set ?F" using m \<open>set (flatClaims E) \<subseteq> set ?F\<close> by auto
      ultimately show ?thesis by (auto simp: sole_iff)
    qed
    then show ?thesis by (auto simp: filter_empty_conv)
  qed
  have sub: "set (flatClaims E1) \<subseteq> set ?F" "set (flatClaims E2) \<subseteq> set ?F"
    by (auto simp: split flatClaims_append flatClaims_Cons)
  have 4: "filter (\<lambda>k. soleClaimant entries P k \<and> Q k) (map snd ?F)
         = filter (\<lambda>k. soleClaimant entries P k \<and> Q k) (map cellId acts)"
    unfolding F filter_append out[OF notP(1) sub(1)] out[OF notP(2) sub(2)] by simp
  have da: "distinct (map cellId acts)" using wf' mem by force
  have 5: "keysOf (filter (\<lambda>k. soleClaimant entries P k \<and> Q k) (map cellId acts))
         = filter (\<lambda>k. soleClaimant entries P k \<and> Q k) (map cellId acts)"
    by (rule keysOf_distinct) (simp add: da)
  show ?thesis
    unfolding 1 3 filter_keysOf 4 5 ..
qed

lemma dvOf_needs: "(dvOf g a = Some v) = needsDie g v (fst (snd a))"
  by (auto simp: dvOf_def needsDie_def split: option.splits)

lemma buy_retained_cells:
  assumes "wellFormedQueues (buy (st_pending s))" and "distinct (map playerId (st_players s))"
    and "(pid, acts) \<in> set (buy (st_pending s))" and "findPlayer pid (st_players s) = Some pl"
  shows "map (fst \<circ> snd)
           (filter (\<lambda>a. fst a = pid \<and> needsDie (st_grid s) v (fst (snd a))) (buyFiltered t s))
       = take (count_list (dice pl) v)
           (filter (\<lambda>c. soleClaimant (buy (st_pending s)) pid c
                        \<and> committable (st_grid s) (st_players s) pid c
                        \<and> needsDie (st_grid s) v c)
                   (map cellId acts))"
proof -
  obtain roles byCell where cb: "collectBuys (buy (st_pending s)) = (roles, byCell)"
    by (metis surj_pair)
  let ?toApply = "fst (buyToApply t s)"
  have ta: "?toApply = fst (fold (classifyCell t (st_grid s) (st_players s) roles) byCell ([], []))"
    by (simp add: buyToApply_def cb)
  have own: "map (fst \<circ> snd) (filter (\<lambda>a. fst a = pid) ?toApply)
           = filter (\<lambda>c. soleClaimant (buy (st_pending s)) pid c
                          \<and> committable (st_grid s) (st_players s) pid c) (map cellId acts)"
    unfolding ta toApply_player
    by (rule sole_cells[OF assms(1) assms(3) cb])
  have "map (fst \<circ> snd)
           (filter (\<lambda>a. fst a = pid \<and> needsDie (st_grid s) v (fst (snd a))) (buyFiltered t s))
      = map (fst \<circ> snd)
           (take (count_list (dice pl) v)
              (filter (\<lambda>a. fst a = pid \<and> dvOf (st_grid s) a = Some v) ?toApply))"
    using filterToApply_key[OF assms(2) assms(4), of "st_grid s" v ?toApply]
    by (simp add: buyFiltered_def dvOf_needs)
  also have "\<dots> = take (count_list (dice pl) v)
              (map (fst \<circ> snd) (filter (\<lambda>a. fst a = pid \<and> dvOf (st_grid s) a = Some v) ?toApply))"
    by (simp only: take_map)
  also have "map (fst \<circ> snd) (filter (\<lambda>a. fst a = pid \<and> dvOf (st_grid s) a = Some v) ?toApply)
           = filter (needsDie (st_grid s) v) (map (fst \<circ> snd) (filter (\<lambda>a. fst a = pid) ?toApply))"
    by (simp add: filter_map comp_def dvOf_needs conj_commute)
  also have "\<dots> = filter (\<lambda>c. soleClaimant (buy (st_pending s)) pid c
                        \<and> committable (st_grid s) (st_players s) pid c
                        \<and> needsDie (st_grid s) v c) (map cellId acts)"
    unfolding own by (simp add: conj_commute conj_left_commute)
  finally show ?thesis .
qed

lemma updateFirst_keyed:
  "distinct (map k xs) \<Longrightarrow>
     updateFirst (\<lambda>x. k x = v) f xs = map (\<lambda>x. if k x = v then f x else x) xs"
proof (induction xs)
  case Nil
  show ?case by simp
next
  case (Cons a xs)
  have n: "k a \<notin> set (map k xs)" using Cons.prems by simp
  show ?case
  proof (cases "k a = v")
    case True
    have "\<forall>x \<in> set xs. k x \<noteq> v" using n True unfolding set_map by (metis imageI)
    then have "map (\<lambda>x. if k x = v then f x else x) xs = xs"
      by (intro map_idI) simp
    then show ?thesis using True by simp
  next
    case False
    then show ?thesis using Cons by simp
  qed
qed

lemma find_None_key: "find (\<lambda>c. k c = v) xs = None \<Longrightarrow> x \<in> set xs \<Longrightarrow> k x \<noteq> v"
  by (auto simp: find_None_iff)

lemma fold_commitBuy_grid:
  "distinct (map cell_id g) \<Longrightarrow> fst (fold commitBuy acts (g, ps)) = map (committedCell acts) g"
proof (induction acts arbitrary: g ps)
  case Nil
  show ?case by (simp add: committedCell_def map_idI)
next
  case (Cons a acts)
  show ?case
  proof (cases "findCell (fst (snd a)) g")
    case None
    have "committedCell (a # acts) x = committedCell acts x" if "x \<in> set g" for x
      using find_None_key[OF None[unfolded findCell_def] that]
      by (simp add: committedCell_def)
    then have "map (committedCell (a # acts)) g = map (committedCell acts) g" by simp
    moreover have "commitBuy a (g, ps) = (g, ps)" using None by (simp add: commitBuy_def)
    then have "fst (fold commitBuy (a # acts) (g, ps)) = fst (fold commitBuy acts (g, ps))"
      by (simp only: fold_simps comp_def)
    ultimately show ?thesis using Cons.IH[OF Cons.prems, of ps] by simp
  next
    case (Some c0)
    let ?f = "\<lambda>x. x\<lparr>owners := Some (pushOwner (fst a) (snd (snd a)) (owners_of x))\<rparr>"
    let ?g1 = "map (\<lambda>x. if cell_id x = fst (snd a) then ?f x else x) g"
    have g1: "updateFirst (\<lambda>x. cell_id x = fst (snd a)) ?f g = ?g1"
      by (rule updateFirst_keyed[OF Cons.prems])
    have ids: "map cell_id ?g1 = map cell_id g" by (simp add: comp_def if_distrib cong: if_cong)
    have d1: "distinct (map cell_id ?g1)" unfolding ids by (rule Cons.prems)
    have nil: "filter P acts = []" if "\<not> list_ex P acts" for P
      using that by (simp add: list_ex_iff filter_empty_conv)
    have step: "committedCell acts (if cell_id x = fst (snd a) then ?f x else x)
              = committedCell (a # acts) x" for x
      by (simp add: committedCell_def pushOwner_def owners_of_def nil)
    obtain ps1 where cb: "commitBuy a (g, ps) = (?g1, ps1)"
      using Some g1 by (simp add: commitBuy_def)
    have "fst (fold commitBuy (a # acts) (g, ps)) = fst (fold commitBuy acts (?g1, ps1))"
      by (simp only: fold_simps comp_def cb)
    also have "\<dots> = map (committedCell acts) ?g1"
      by (rule Cons.IH[OF d1])
    also have "\<dots> = map (committedCell (a # acts)) g"
      by (simp add: comp_def step del: committedCell_def)
    finally show ?thesis .
  qed
qed

lemma alarmBuyPhase_grid:
  "st_grid (fst (alarmBuyPhase e config s))
     = fst (fold commitBuy (buyFiltered (now e) s) (st_grid s, st_players s))"
  by (simp add: alarmBuyPhase_def enterPathPhase_eq Let_def split: prod.splits)

end
